theory Spec2Isabelle
  imports Complex_Main
begin

section \<open>The test-device agent of \<^verbatim>\<open>src/mtda/main.py\<close>\<close>

text \<open>
  A shallow embedding of the class \<^verbatim>\<open>MentorTestDeviceAgent\<close>. Every method that
  takes a session becomes a function from the agent's state to an outcome and
  the state the object is left in. A Python exception does not undo the
  assignments made before it, so a raising call returns a state too.

  What the source file does not define is a parameter of the model, collected
  in the record \<open>world\<close>: the clock \<^verbatim>\<open>time.monotonic\<close>, the power, SD-mux and USB
  drivers, the console logger, the constants of the driver classes and the two
  decompressor classes of the Python library. A driver is a deterministic
  function of the calls made to the hardware so far: the agent's state keeps
  that history (\<open>trace\<close>), a driver method appends its call and reads its reply
  from the world. \<open>trace\<close> is therefore also the record of which driver
  primitives an operation invoked.
\<close>

subsection \<open>Values, errors, outcomes\<close>

type_synonym bytes = "char list"

text \<open>A session is any Python value; the model takes \<^verbatim>\<open>None\<close> and strings.\<close>

type_synonym session = "string option"

text \<open>Python's truth value of a session: \<^verbatim>\<open>None\<close> and the empty string are false.\<close>

definition truthy :: "session \<Rightarrow> bool" where
  "truthy x = (case x of None \<Rightarrow> False | Some n \<Rightarrow> n \<noteq> [])"

datatype pyerr = TypeError | AttributeError | EOFError | OSError | ZlibError

datatype 'a outcome = Returned 'a | Raised pyerr

datatype pyval = VNone | VBool bool | VInt int | VStr string

text \<open>Calls to the hardware drivers, in the order of the capability interfaces.\<close>

datatype call =
    PowerOn | PowerOff | PowerToggle | PowerStatus
  | MuxOpen | MuxClose | MuxMount "string option" | MuxUpdate string int bytes
  | MuxWrite bytes | MuxStatus | MuxToHost | MuxToTarget
  | UsbOn nat | UsbOff nat | UsbToggle nat | UsbStatus nat

text \<open>Calls to the console logger.\<close>

datatype logcall =
    LogClear | LogFlush | LogHead | LogLines | LogPrint string
  | LogPrompt "string option" | LogRun string | LogWrite string bool | LogTail
  | LogResume | LogPause | LogResetTimer | LogToggleTimestamps

text \<open>
  The reply of \<^verbatim>\<open>BZ2Decompressor.decompress\<close>: the decompressed bytes, or one of
  the two exceptions of the library (\<^verbatim>\<open>EOFError\<close> after the end of the stream,
  \<^verbatim>\<open>OSError\<close> on invalid data). \<^verbatim>\<open>zlib\<close> raises \<^verbatim>\<open>zlib.error\<close> only.
\<close>

datatype bz2_reply = BzOut bytes | BzEOFError | BzOSError

datatype z_reply = ZOut bytes | ZError

text \<open>The attribute \<^verbatim>\<open>self.zdata\<close>: \<^verbatim>\<open>__init__\<close> does not create it.\<close>

datatype zattr = Unset | PyNone | Bytes bytes

subsection \<open>The environment\<close>

text \<open>
  \<open>monotonic w n\<close> is what the \<open>n\<close>-th call of \<^verbatim>\<open>time.monotonic()\<close> returns.
  \<open>drv_bool\<close>, \<open>drv_str\<close> and \<open>drv_int\<close> give a driver method's reply from the
  history of driver calls, by the type the agent uses the reply at. A
  decompressor object is the list of the calls made to its \<^verbatim>\<open>decompress\<close>, each
  the data and the \<^verbatim>\<open>max_length\<close> passed; its reply to the next call and its
  attributes after the last one are functions of that history.
\<close>

type_synonym dcall = "bytes \<times> int"

record world =
  monotonic :: "nat \<Rightarrow> real"
  drv_bool :: "call list \<Rightarrow> call \<Rightarrow> bool"
  drv_str :: "call list \<Rightarrow> call \<Rightarrow> string"
  drv_int :: "call list \<Rightarrow> call \<Rightarrow> int"
  log_reply :: "logcall list \<Rightarrow> logcall \<Rightarrow> pyval"
  POWER_OFF :: string
  POWER_LOCKED :: string
  SD_ON_HOST :: string
  SD_ON_TARGET :: string
  POWERED_OFF :: int
  POWERED_ON :: int
  bz2_decompress :: "dcall list \<Rightarrow> dcall \<Rightarrow> bz2_reply"
  bz2_needs_input :: "dcall list \<Rightarrow> bool"
  bz2_unused_data :: "dcall list \<Rightarrow> bytes"
  z_decompress :: "dcall list \<Rightarrow> dcall \<Rightarrow> z_reply"
  z_unconsumed_tail :: "dcall list \<Rightarrow> bytes"

subsection \<open>The agent's state\<close>

text \<open>
  The fields of \<^verbatim>\<open>__init__\<close> that the session operations read or write. A
  driver field holds whether a driver is configured; \<open>usb_switches\<close> holds the
  class name of each switch. \<open>ticks\<close> counts the clock readings made, \<open>logged\<close>
  and \<open>stderr\<close> record the logger calls and the lines printed.
\<close>

record agent =
  console_logger :: bool
  power_controller :: bool
  sdmux_controller :: bool
  bytes_written :: int
  sd_mounted :: bool
  sd_opened :: bool
  blksz :: int
  bz2dec :: "dcall list option"
  zdec :: "dcall list option"
  zdata :: zattr
  fbintvl :: real
  usb_switches :: "string list"
  lock_owner :: session
  lock_expiry :: "real option"
  lock_timeout :: real
  ticks :: nat
  trace :: "call list"
  logged :: "logcall list"
  stderr :: "string list"

type_synonym 'a result = "'a outcome \<times> agent"

text \<open>The state \<^verbatim>\<open>__init__\<close> builds, before any configuration is loaded.\<close>

definition init :: agent where
  "init = \<lparr> console_logger = False, power_controller = False,
     sdmux_controller = False, bytes_written = 0, sd_mounted = False,
     sd_opened = False, blksz = 65536, bz2dec = None, zdec = None,
     zdata = Unset, fbintvl = 8, usb_switches = [], lock_owner = None,
     lock_expiry = None, lock_timeout = 5, ticks = 0, trace = [],
     logged = [], stderr = [] \<rparr>"

text \<open>Sequencing: a raised exception skips the rest of the method.\<close>

definition bnd :: "'a result \<Rightarrow> ('a \<Rightarrow> agent \<Rightarrow> 'b result) \<Rightarrow> 'b result" where
  "bnd m f = (case m of (Returned v, s) \<Rightarrow> f v s | (Raised e, s) \<Rightarrow> (Raised e, s))"

definition call_bool :: "world \<Rightarrow> call \<Rightarrow> agent \<Rightarrow> bool \<times> agent" where
  "call_bool w c s = (drv_bool w (trace s) c, s\<lparr>trace := trace s @ [c]\<rparr>)"

definition call_str :: "world \<Rightarrow> call \<Rightarrow> agent \<Rightarrow> string \<times> agent" where
  "call_str w c s = (drv_str w (trace s) c, s\<lparr>trace := trace s @ [c]\<rparr>)"

definition call_int :: "world \<Rightarrow> call \<Rightarrow> agent \<Rightarrow> int \<times> agent" where
  "call_int w c s = (drv_int w (trace s) c, s\<lparr>trace := trace s @ [c]\<rparr>)"

definition call_log :: "world \<Rightarrow> logcall \<Rightarrow> agent \<Rightarrow> pyval \<times> agent" where
  "call_log w c s = (log_reply w (logged s) c, s\<lparr>logged := logged s @ [c]\<rparr>)"

subsection \<open>The lease\<close>

text \<open>
  \<^verbatim>\<open>_check_expired\<close>: the clock is read only when the owner is true. The
  comparison \<^verbatim>\<open>now >= self._lock_expiry\<close> raises \<^verbatim>\<open>TypeError\<close> when the expiry is
  still \<^verbatim>\<open>None\<close>.
\<close>

definition check_expired :: "world \<Rightarrow> session \<Rightarrow> agent \<Rightarrow> unit result" where
  "check_expired w session s =
     (if truthy (lock_owner s) then
        (let now = monotonic w (ticks s); s1 = s\<lparr>ticks := Suc (ticks s)\<rparr> in
         if session = lock_owner s then
           (Returned (), s1\<lparr>lock_expiry := Some (now + lock_timeout s * 60)\<rparr>)
         else (case lock_expiry s of
                 None \<Rightarrow> (Raised TypeError, s1)
               | Some e \<Rightarrow>
                   if now \<ge> e then (Returned (), s1\<lparr>lock_owner := None\<rparr>)
                   else (Returned (), s1)))
      else (Returned (), s))"

text \<open>\<^verbatim>\<open>_check_locked\<close> and \<^verbatim>\<open>target_owner\<close> read the state only.\<close>

definition target_owner :: "agent \<Rightarrow> session" where
  "target_owner s = lock_owner s"

definition check_locked :: "session \<Rightarrow> agent \<Rightarrow> bool" where
  "check_locked session s =
     (case target_owner s of None \<Rightarrow> False
      | Some n \<Rightarrow> (if session = Some n then False else True))"

definition target_lock :: "world \<Rightarrow> session \<Rightarrow> agent \<Rightarrow> bool result" where
  "target_lock w session s =
     bnd (check_expired w session s) (\<lambda>_ s1.
       if target_owner s1 = None \<or> target_owner s1 = session
       then (Returned True, s1\<lparr>lock_owner := session\<rparr>)
       else (Returned False, s1))"

definition target_locked :: "world \<Rightarrow> session \<Rightarrow> agent \<Rightarrow> bool result" where
  "target_locked w session s =
     bnd (check_expired w session s) (\<lambda>_ s1. (Returned (check_locked session s1), s1))"

definition target_unlock :: "world \<Rightarrow> session \<Rightarrow> agent \<Rightarrow> bool result" where
  "target_unlock w session s =
     bnd (check_expired w session s) (\<lambda>_ s1.
       if target_owner s1 = session
       then (Returned True, s1\<lparr>lock_owner := None\<rparr>)
       else (Returned False, s1))"

subsection \<open>The console\<close>

definition console_locked :: "world \<Rightarrow> session \<Rightarrow> agent \<Rightarrow> bool result" where
  "console_locked w session s =
     bnd (check_expired w session s) (\<lambda>_ s1.
       if check_locked session s1 then (Returned True, s1) else (Returned False, s1))"

text \<open>
  The console methods differ in whether they ask \<^verbatim>\<open>console_locked\<close> and in the
  logger method they delegate to: \<open>console_gated\<close> is the shape of
  \<^verbatim>\<open>console_clear\<close>, \<open>console_open\<close> that of \<^verbatim>\<open>console_head\<close>.
\<close>

definition console_open :: "world \<Rightarrow> logcall \<Rightarrow> session \<Rightarrow> agent \<Rightarrow> pyval result" where
  "console_open w c session s =
     bnd (check_expired w session s) (\<lambda>_ s1.
       if console_logger s1
       then (case call_log w c s1 of (v, s2) \<Rightarrow> (Returned v, s2))
       else (Returned VNone, s1))"

definition console_gated :: "world \<Rightarrow> logcall \<Rightarrow> session \<Rightarrow> agent \<Rightarrow> pyval result" where
  "console_gated w c session s =
     bnd (check_expired w session s) (\<lambda>_ s1.
     bnd (console_locked w session s1) (\<lambda>locked s2.
       if locked then (Returned VNone, s2)
       else if console_logger s2
       then (case call_log w c s2 of (v, s3) \<Rightarrow> (Returned v, s3))
       else (Returned VNone, s2)))"

definition console_clear :: "world \<Rightarrow> session \<Rightarrow> agent \<Rightarrow> pyval result" where
  "console_clear w = console_gated w LogClear"

definition console_flush :: "world \<Rightarrow> session \<Rightarrow> agent \<Rightarrow> pyval result" where
  "console_flush w = console_gated w LogFlush"

definition console_head :: "world \<Rightarrow> session \<Rightarrow> agent \<Rightarrow> pyval result" where
  "console_head w = console_open w LogHead"

definition console_lines :: "world \<Rightarrow> session \<Rightarrow> agent \<Rightarrow> pyval result" where
  "console_lines w = console_open w LogLines"

definition console_print :: "world \<Rightarrow> string \<Rightarrow> session \<Rightarrow> agent \<Rightarrow> pyval result" where
  "console_print w data = console_open w (LogPrint data)"

definition console_prompt :: "world \<Rightarrow> string option \<Rightarrow> session \<Rightarrow> agent \<Rightarrow> pyval result" where
  "console_prompt w newPrompt = console_gated w (LogPrompt newPrompt)"

definition console_run :: "world \<Rightarrow> string \<Rightarrow> session \<Rightarrow> agent \<Rightarrow> pyval result" where
  "console_run w cmd = console_gated w (LogRun cmd)"

definition console_send :: "world \<Rightarrow> string \<Rightarrow> bool \<Rightarrow> session \<Rightarrow> agent \<Rightarrow> pyval result" where
  "console_send w data raw = console_gated w (LogWrite data raw)"

definition console_tail :: "world \<Rightarrow> session \<Rightarrow> agent \<Rightarrow> pyval result" where
  "console_tail w = console_gated w LogTail"

definition toggle_timestamps :: "world \<Rightarrow> agent \<Rightarrow> pyval result" where
  "toggle_timestamps w s =
     (if console_logger s
      then (case call_log w LogToggleTimestamps s of (v, s1) \<Rightarrow> (Returned v, s1))
      else (Returned VNone, s\<lparr>stderr := stderr s @ [''no console configured/found!'']\<rparr>))"

subsection \<open>Power\<close>

definition power_locked :: "world \<Rightarrow> session \<Rightarrow> agent \<Rightarrow> bool result" where
  "power_locked w session s =
     bnd (check_expired w session s) (\<lambda>_ s1.
       if check_locked session s1 then (Returned True, s1)
       else if \<not> power_controller s1 then (Returned True, s1)
       else (Returned False, s1))"

text \<open>\<^verbatim>\<open>target_status\<close>; the agent's own calls of it pass no session.\<close>

definition target_status :: "world \<Rightarrow> session \<Rightarrow> agent \<Rightarrow> string result" where
  "target_status w session s =
     bnd (check_expired w session s) (\<lambda>_ s1.
       if \<not> power_controller s1 then (Returned ''???'', s1)
       else (case call_str w PowerStatus s1 of (v, s2) \<Rightarrow> (Returned v, s2)))"

definition target_on :: "world \<Rightarrow> session \<Rightarrow> agent \<Rightarrow> bool result" where
  "target_on w session s =
     (let s0 = (if console_logger s then snd (call_log w LogResume s) else s) in
      bnd (check_expired w session s0) (\<lambda>_ s1.
      bnd (power_locked w session s1) (\<lambda>locked s2.
        if locked = False
        then (case call_bool w PowerOn s2 of (v, s3) \<Rightarrow> (Returned v, s3))
        else (Returned False, s2))))"

text \<open>
  \<^verbatim>\<open>target_off\<close>: \<^verbatim>\<open>reset_timer\<close> is guarded by the test for a logger,
  \<^verbatim>\<open>pause\<close> is not, and raises \<^verbatim>\<open>AttributeError\<close> on \<^verbatim>\<open>None\<close>.
\<close>

definition target_off :: "world \<Rightarrow> session \<Rightarrow> agent \<Rightarrow> bool result" where
  "target_off w session s =
     bnd (check_expired w session s) (\<lambda>_ s1.
     bnd (power_locked w session s1) (\<lambda>locked s2.
       if locked = False
       then (case call_bool w PowerOff s2 of (status, s3) \<Rightarrow>
              (let s4 = (if console_logger s3 then snd (call_log w LogResetTimer s3) else s3) in
               if status = True
               then (if console_logger s4
                     then (Returned status, snd (call_log w LogPause s4))
                     else (Raised AttributeError, s4))
               else (Returned status, s4)))
       else (Returned False, s2)))"

text \<open>
  \<^verbatim>\<open>target_toggle\<close>: both tests compare with \<^verbatim>\<open>POWER_OFF\<close>. The locked branch
  reads \<^verbatim>\<open>self.power_controller.POWER_LOCKED\<close>, an \<^verbatim>\<open>AttributeError\<close> when no
  power controller is configured.
\<close>

definition target_toggle :: "world \<Rightarrow> session \<Rightarrow> agent \<Rightarrow> string result" where
  "target_toggle w session s =
     bnd (check_expired w session s) (\<lambda>_ s1.
     bnd (power_locked w session s1) (\<lambda>locked s2.
       if locked = False
       then (case call_str w PowerToggle s2 of (status, s3) \<Rightarrow>
              (if console_logger s3
               then (let s4 = (if status = POWER_OFF w then snd (call_log w LogResume s3) else s3);
                         s5 = (if status = POWER_OFF w
                               then snd (call_log w LogResetTimer (snd (call_log w LogPause s4)))
                               else s4)
                     in (Returned status, s5))
               else (Returned status, s3)))
       else if power_controller s2 then (Returned (POWER_LOCKED w), s2)
       else (Raised AttributeError, s2)))"

subsection \<open>The SD multiplexer\<close>

definition sd_bytes_written :: "world \<Rightarrow> session \<Rightarrow> agent \<Rightarrow> int result" where
  "sd_bytes_written w session s =
     bnd (check_expired w session s) (\<lambda>_ s1. (Returned (bytes_written s1), s1))"

definition sd_close :: "world \<Rightarrow> session \<Rightarrow> agent \<Rightarrow> bool result" where
  "sd_close w session s =
     bnd (check_expired w session s) (\<lambda>_ s1.
       if \<not> sdmux_controller s1 then (Returned False, s1)
       else (let s2 = s1\<lparr>bz2dec := None, zdec := None\<rparr> in
             if sd_opened s2 = True
             then (case call_bool w MuxClose s2 of (r, s3) \<Rightarrow>
                    (let s4 = s3\<lparr>sd_opened := (\<not> r)\<rparr>
                     in (Returned (sd_opened s4 = False), s4)))
             else (Returned (sd_opened s2 = False), s2)))"

definition sd_locked :: "world \<Rightarrow> session \<Rightarrow> agent \<Rightarrow> bool result" where
  "sd_locked w session s =
     bnd (check_expired w session s) (\<lambda>_ s1.
       if check_locked session s1 then (Returned True, s1)
       else if \<not> sdmux_controller s1 then (Returned True, s1)
       else if \<not> power_controller s1 then (Returned True, s1)
       else bnd (target_status w None s1) (\<lambda>status s2.
         if status \<noteq> ''OFF'' then (Returned True, s2)
         else if sd_opened s2 = True then (Returned True, s2)
         else (Returned False, s2)))"

definition sd_mount :: "world \<Rightarrow> string option \<Rightarrow> session \<Rightarrow> agent \<Rightarrow> bool result" where
  "sd_mount w part session s =
     bnd (check_expired w session s) (\<lambda>_ s1.
       if sd_mounted s1 = True then (Returned True, s1)
       else if \<not> sdmux_controller s1 then (Returned False, s1)
       else (case call_bool w (MuxMount part) s1 of (status, s2) \<Rightarrow>
              (Returned status, s2\<lparr>sd_mounted := (status = True)\<rparr>)))"

definition sd_update :: "world \<Rightarrow> string \<Rightarrow> int \<Rightarrow> bytes \<Rightarrow> session \<Rightarrow> agent \<Rightarrow> int result" where
  "sd_update w dst offset data session s =
     bnd (check_expired w session s) (\<lambda>_ s1.
       if \<not> sdmux_controller s1 then (Returned (- 1), s1)
       else (let s2 = (if offset = 0 then s1\<lparr>bytes_written := 0\<rparr> else s1) in
             case call_int w (MuxUpdate dst offset data) s2 of (r, s3) \<Rightarrow>
               (if r > 0 then (Returned r, s3\<lparr>bytes_written := bytes_written s3 + r\<rparr>)
                else (Returned r, s3))))"

text \<open>\<^verbatim>\<open>sd_open\<close> calls \<^verbatim>\<open>self.sd_close()\<close> with no session and drops its result.\<close>

definition sd_open :: "world \<Rightarrow> session \<Rightarrow> agent \<Rightarrow> bool result" where
  "sd_open w session s =
     bnd (check_expired w session s) (\<lambda>_ s1.
       if \<not> sdmux_controller s1 then (Returned False, s1)
       else bnd (sd_close w None s1) (\<lambda>_ s2.
         case call_bool w MuxOpen (s2\<lparr>bytes_written := 0\<rparr>) of (status, s3) \<Rightarrow>
           (Returned status, s3\<lparr>sd_opened := (status = True)\<rparr>)))"

definition sd_status :: "world \<Rightarrow> session \<Rightarrow> agent \<Rightarrow> string result" where
  "sd_status w session s =
     bnd (check_expired w session s) (\<lambda>_ s1.
       if \<not> sdmux_controller s1 then (Returned ''???'', s1)
       else (case call_str w MuxStatus s1 of (v, s2) \<Rightarrow> (Returned v, s2)))"

definition sd_to_host :: "world \<Rightarrow> session \<Rightarrow> agent \<Rightarrow> bool result" where
  "sd_to_host w session s =
     bnd (check_expired w session s) (\<lambda>_ s1.
     bnd (sd_locked w session s1) (\<lambda>locked s2.
       if locked = False
       then (case call_bool w MuxToHost s2 of (v, s3) \<Rightarrow> (Returned v, s3))
       else (Returned False, s2)))"

definition sd_to_target :: "world \<Rightarrow> session \<Rightarrow> agent \<Rightarrow> bool result" where
  "sd_to_target w session s =
     bnd (check_expired w session s) (\<lambda>_ s1.
     bnd (sd_locked w session s1) (\<lambda>locked s2.
       if locked = False
       then bnd (sd_close w None s2) (\<lambda>_ s3.
              case call_bool w MuxToTarget s3 of (v, s4) \<Rightarrow> (Returned v, s4))
       else (Returned False, s2)))"

definition sd_toggle :: "world \<Rightarrow> session \<Rightarrow> agent \<Rightarrow> string result" where
  "sd_toggle w session s =
     bnd (check_expired w session s) (\<lambda>_ s1.
     bnd (sd_locked w session s1) (\<lambda>locked s2.
     bnd (if locked = False
          then bnd (sd_status w session s2) (\<lambda>status s3.
                 if status = SD_ON_HOST w
                 then (Returned (), snd (call_bool w MuxToTarget s3))
                 else if status = SD_ON_TARGET w
                 then (Returned (), snd (call_bool w MuxToHost s3))
                 else (Returned (), s3))
          else (Returned (), s2)) (\<lambda>_ s4.
     sd_status w session s4)))"

subsection \<open>The write pipeline\<close>

definition sd_write_raw :: "world \<Rightarrow> bytes \<Rightarrow> session \<Rightarrow> agent \<Rightarrow> int result" where
  "sd_write_raw w data session s =
     bnd (check_expired w session s) (\<lambda>_ s1.
       if \<not> sdmux_controller s1 then (Returned (- 1), s1)
       else (case call_bool w (MuxWrite data) s1 of (status, s2) \<Rightarrow>
              (if status = False then (Returned (- 1), s2)
               else (Returned (blksz s2),
                     s2\<lparr>bytes_written := bytes_written s2 + int (length data)\<rparr>))))"

text \<open>
  \<^verbatim>\<open>_sd_write_bz2\<close>. The decompressor object takes the call into its history
  whether or not it raises; \<^verbatim>\<open>needs_input\<close> is read after the call.
\<close>

definition sd_write_bz2_priv :: "world \<Rightarrow> bytes \<Rightarrow> agent \<Rightarrow> int result" where
  "sd_write_bz2_priv w data s =
     (case bz2dec s of
        None \<Rightarrow> (Raised AttributeError, s)
      | Some hist \<Rightarrow>
          (let s1 = s\<lparr>bz2dec := Some (hist @ [(data, blksz s)])\<rparr> in
           case bz2_decompress w hist (data, blksz s) of
             BzEOFError \<Rightarrow> (Raised EOFError, s1)
           | BzOSError \<Rightarrow> (Raised OSError, s1)
           | BzOut uncompressed \<Rightarrow>
               (case call_bool w (MuxWrite uncompressed) s1 of (status, s2) \<Rightarrow>
                  (if status = False then (Returned (- 1), s2)
                   else (let s3 = s2\<lparr>bytes_written :=
                                      bytes_written s2 + int (length uncompressed)\<rparr> in
                         if bz2_needs_input w (hist @ [(data, blksz s)]) = False
                         then (Returned 0, s3)
                         else (Returned (blksz s3), s3))))))"

definition dec_hist :: "dcall list option \<Rightarrow> dcall list" where
  "dec_hist d = (case d of None \<Rightarrow> [] | Some h \<Rightarrow> h)"

text \<open>
  The loop of \<^verbatim>\<open>sd_write_bz2\<close>, one unfolding per iteration. It ends when the
  status is not 0, when the feedback interval has elapsed, or at an
  \<^verbatim>\<open>EOFError\<close> that leaves no unused data; a decompressor that never asks for
  input under a clock that stands still keeps it running, which is the value
  \<open>None\<close>.
\<close>

partial_function (option) sd_write_bz2_loop ::
  "world \<Rightarrow> real \<Rightarrow> bytes \<Rightarrow> agent \<Rightarrow> int result option" where
  "sd_write_bz2_loop w start data s =
     (case sd_write_bz2_priv w data s of
        (Raised e, s1) \<Rightarrow>
          (if e = EOFError
           then (let data' = bz2_unused_data w (dec_hist (bz2dec s1));
                     s2 = s1\<lparr>bz2dec := Some []\<rparr> in
                 if length data' > 0 then sd_write_bz2_loop w start data' s2
                 else Some (Returned 0, s2))
           else Some (Raised e, s1))
      | (Returned status, s1) \<Rightarrow>
          (if status \<noteq> 0 then Some (Returned status, s1)
           else (let now = monotonic w (ticks s1); s2 = s1\<lparr>ticks := Suc (ticks s1)\<rparr> in
                 if now - start \<ge> fbintvl s2 then Some (Returned status, s2)
                 else sd_write_bz2_loop w start [] s2)))"

definition sd_write_bz2 :: "world \<Rightarrow> bytes \<Rightarrow> session \<Rightarrow> agent \<Rightarrow> int result option" where
  "sd_write_bz2 w data session s =
     (case check_expired w session s of
        (Raised e, s1) \<Rightarrow> Some (Raised e, s1)
      | (Returned _, s1) \<Rightarrow>
          (if \<not> sdmux_controller s1 then Some (Returned (- 1), s1)
           else (let s2 = (if bz2dec s1 = None then s1\<lparr>bz2dec := Some []\<rparr> else s1);
                     start = monotonic w (ticks s2);
                     s3 = s2\<lparr>ticks := Suc (ticks s2)\<rparr>
                 in sd_write_bz2_loop w start data s3)))"

text \<open>
  \<^verbatim>\<open>_sd_write_gz\<close>. Its argument is \<^verbatim>\<open>None\<close> when \<^verbatim>\<open>sd_write_gz\<close> took it from a
  \<^verbatim>\<open>self.zdata\<close> that held \<^verbatim>\<open>None\<close>; \<^verbatim>\<open>decompress\<close> then raises \<^verbatim>\<open>TypeError\<close>.
\<close>

definition sd_write_gz_priv :: "world \<Rightarrow> bytes option \<Rightarrow> agent \<Rightarrow> int result" where
  "sd_write_gz_priv w data s =
     (case zdec s of
        None \<Rightarrow> (Raised AttributeError, s)
      | Some hist \<Rightarrow>
          (case data of
             None \<Rightarrow> (Raised TypeError, s)
           | Some d \<Rightarrow>
               (let s1 = s\<lparr>zdec := Some (hist @ [(d, blksz s)])\<rparr> in
                case z_decompress w hist (d, blksz s) of
                  ZError \<Rightarrow> (Raised ZlibError, s1)
                | ZOut uncompressed \<Rightarrow>
                    (case call_bool w (MuxWrite uncompressed) s1 of (status, s2) \<Rightarrow>
                       (if status = False then (Returned (- 1), s2)
                        else (let s3 = s2\<lparr>bytes_written :=
                                           bytes_written s2 + int (length uncompressed)\<rparr> in
                              if length (z_unconsumed_tail w (hist @ [(d, blksz s)])) > 0
                              then (Returned 0, s3)
                              else (Returned (blksz s3), s3)))))))"

partial_function (option) sd_write_gz_loop ::
  "world \<Rightarrow> real \<Rightarrow> bytes option \<Rightarrow> agent \<Rightarrow> int result option" where
  "sd_write_gz_loop w start data s =
     (case sd_write_gz_priv w data s of
        (Raised e, s1) \<Rightarrow> Some (Raised e, s1)
      | (Returned status, s1) \<Rightarrow>
          (let s2 = s1\<lparr>zdata := PyNone\<rparr> in
           if status \<noteq> 0 then Some (Returned status, s2)
           else (let data' = z_unconsumed_tail w (dec_hist (zdec s2));
                     now = monotonic w (ticks s2);
                     s3 = s2\<lparr>ticks := Suc (ticks s2)\<rparr> in
                 if now - start \<ge> fbintvl s3
                 then Some (Returned status, s3\<lparr>zdata := Bytes data'\<rparr>)
                 else sd_write_gz_loop w start (Some data') s3)))"

text \<open>
  \<^verbatim>\<open>sd_write_gz\<close>: an empty buffer is replaced by \<^verbatim>\<open>self.zdata\<close>, an attribute
  that exists only once the loop has run.
\<close>

definition sd_write_gz :: "world \<Rightarrow> bytes \<Rightarrow> session \<Rightarrow> agent \<Rightarrow> int result option" where
  "sd_write_gz w data session s =
     (case check_expired w session s of
        (Raised e, s1) \<Rightarrow> Some (Raised e, s1)
      | (Returned _, s1) \<Rightarrow>
          (if \<not> sdmux_controller s1 then Some (Returned (- 1), s1)
           else (let s2 = (if zdec s1 = None then s1\<lparr>zdec := Some []\<rparr> else s1) in
                 if length data = 0
                 then (case zdata s2 of
                         Unset \<Rightarrow> Some (Raised AttributeError, s2)
                       | PyNone \<Rightarrow>
                           sd_write_gz_loop w (monotonic w (ticks s2)) None
                             (s2\<lparr>ticks := Suc (ticks s2)\<rparr>)
                       | Bytes b \<Rightarrow>
                           sd_write_gz_loop w (monotonic w (ticks s2)) (Some b)
                             (s2\<lparr>ticks := Suc (ticks s2)\<rparr>))
                 else sd_write_gz_loop w (monotonic w (ticks s2)) (Some data)
                        (s2\<lparr>ticks := Suc (ticks s2)\<rparr>))))"

subsection \<open>USB switches\<close>

text \<open>Python's \<^verbatim>\<open>str\<close> of an integer, for the message of an invalid index.\<close>

definition digit :: "nat \<Rightarrow> char" where
  "digit d = ''0123456789'' ! d"

function str_nat :: "nat \<Rightarrow> string" where
  "str_nat n = (if n < 10 then [digit n] else str_nat (n div 10) @ [digit (n mod 10)])"
  by pat_completeness auto
termination
  by (relation "measure id") auto

declare str_nat.simps [simp del]

definition str :: "int \<Rightarrow> string" where
  "str n = (if n < 0 then CHR ''-'' # str_nat (nat (- n)) else str_nat (nat n))"

text \<open>The loop of \<^verbatim>\<open>usb_find_by_class\<close>; the switch found is given by its position.\<close>

function usb_find_loop :: "string list \<Rightarrow> string \<Rightarrow> nat \<Rightarrow> nat option" where
  "usb_find_loop sw className ndx =
     (if ndx < length sw
      then (if sw ! ndx = className then Some ndx
            else usb_find_loop sw className (ndx + 1))
      else None)"
  by pat_completeness auto
termination
  by (relation "measure (\<lambda>(sw, className, ndx). length sw - ndx)") auto

declare usb_find_loop.simps [simp del]

definition usb_find_by_class :: "world \<Rightarrow> string \<Rightarrow> session \<Rightarrow> agent \<Rightarrow> nat option result" where
  "usb_find_by_class w className session s =
     bnd (check_expired w session s) (\<lambda>_ s1.
       (Returned (usb_find_loop (usb_switches s1) className 0), s1))"

definition usb_has_class :: "world \<Rightarrow> string \<Rightarrow> session \<Rightarrow> agent \<Rightarrow> bool result" where
  "usb_has_class w className session s =
     bnd (check_expired w session s) (\<lambda>_ s1.
     bnd (usb_find_by_class w className session s1) (\<lambda>usb_switch s2.
       (Returned (usb_switch \<noteq> None), s2)))"

text \<open>
  The indexed operations: \<^verbatim>\<open>self.usb_switches[ndx-1]\<close> is reached only when
  \<^verbatim>\<open>ndx > 0\<close>, and raises \<^verbatim>\<open>IndexError\<close> past the end of the list; the handler
  prints one line. \<open>usb_indexed\<close> is the shape \<^verbatim>\<open>usb_on\<close>, \<^verbatim>\<open>usb_off\<close> and
  \<^verbatim>\<open>usb_toggle\<close> share; they return \<^verbatim>\<open>None\<close>.
\<close>

definition usb_indexed :: "world \<Rightarrow> (nat \<Rightarrow> call) \<Rightarrow> int \<Rightarrow> session \<Rightarrow> agent \<Rightarrow> unit result" where
  "usb_indexed w c ndx session s =
     bnd (check_expired w session s) (\<lambda>_ s1.
       if ndx > 0
       then (if nat (ndx - 1) < length (usb_switches s1)
             then (Returned (), snd (call_bool w (c (nat (ndx - 1))) s1))
             else (Returned (),
                   s1\<lparr>stderr := stderr s1 @ [''invalid USB switch #'' @ str ndx]\<rparr>))
       else (Returned (), s1))"

definition usb_off :: "world \<Rightarrow> int \<Rightarrow> session \<Rightarrow> agent \<Rightarrow> unit result" where
  "usb_off w = usb_indexed w UsbOff"

definition usb_on :: "world \<Rightarrow> int \<Rightarrow> session \<Rightarrow> agent \<Rightarrow> unit result" where
  "usb_on w = usb_indexed w UsbOn"

definition usb_toggle :: "world \<Rightarrow> int \<Rightarrow> session \<Rightarrow> agent \<Rightarrow> unit result" where
  "usb_toggle w = usb_indexed w UsbToggle"

definition usb_by_class :: "world \<Rightarrow> (nat \<Rightarrow> call) \<Rightarrow> string \<Rightarrow> session \<Rightarrow> agent \<Rightarrow> bool result" where
  "usb_by_class w c className session s =
     bnd (check_expired w session s) (\<lambda>_ s1.
     bnd (usb_find_by_class w className session s1) (\<lambda>usb_switch s2.
       case usb_switch of
         Some i \<Rightarrow> (case call_bool w (c i) s2 of (v, s3) \<Rightarrow> (Returned v, s3))
       | None \<Rightarrow> (Returned False, s2)))"

definition usb_off_by_class :: "world \<Rightarrow> string \<Rightarrow> session \<Rightarrow> agent \<Rightarrow> bool result" where
  "usb_off_by_class w = usb_by_class w UsbOff"

definition usb_on_by_class :: "world \<Rightarrow> string \<Rightarrow> session \<Rightarrow> agent \<Rightarrow> bool result" where
  "usb_on_by_class w = usb_by_class w UsbOn"

definition usb_ports :: "world \<Rightarrow> session \<Rightarrow> agent \<Rightarrow> int result" where
  "usb_ports w session s =
     bnd (check_expired w session s) (\<lambda>_ s1. (Returned (int (length (usb_switches s1))), s1))"

definition usb_status :: "world \<Rightarrow> int \<Rightarrow> session \<Rightarrow> agent \<Rightarrow> string result" where
  "usb_status w ndx session s =
     bnd (check_expired w session s) (\<lambda>_ s1.
       if ndx > 0
       then (if nat (ndx - 1) < length (usb_switches s1)
             then (case call_int w (UsbStatus (nat (ndx - 1))) s1 of (status, s2) \<Rightarrow>
                    (if status = POWERED_OFF w then (Returned ''OFF'', s2)
                     else if status = POWERED_ON w then (Returned ''ON'', s2)
                     else (Returned ''???'', s2)))
             else (Returned ''ERR'',
                   s1\<lparr>stderr := stderr s1 @ [''invalid USB switch #'' @ str ndx]\<rparr>))
       else (Returned ''???'', s1))"

subsection \<open>Streams, as the decompressors read them\<close>

text \<open>
  The bytes the SD-mux driver was given to write, in order, one entry per
  \<^verbatim>\<open>write\<close> call.
\<close>

primrec sink :: "call list \<Rightarrow> bytes list" where
  "sink [] = []"
| "sink (c # cs) = (case c of MuxWrite d \<Rightarrow> d # sink cs | _ \<Rightarrow> sink cs)"


text \<open>
  \<open>bz2_frag\<close> gives the decompressor one fragment of a longer input and then
  empty inputs until it asks for more; at an end of stream a new decompressor
  takes over with the unused data. The result is the list of outputs and the
  history of the decompressor that asked for input. \<open>bz2_feed\<close> does so for a
  list of fragments in turn.
\<close>

fun bz2_frag :: "world \<Rightarrow> int \<Rightarrow> nat \<Rightarrow> dcall list \<Rightarrow> bytes \<Rightarrow> (bytes list \<times> dcall list) option" where
  "bz2_frag w m 0 hist data = None"
| "bz2_frag w m (Suc n) hist data =
     (case bz2_decompress w hist (data, m) of
        BzEOFError \<Rightarrow> bz2_frag w m n [] (bz2_unused_data w (hist @ [(data, m)]))
      | BzOSError \<Rightarrow> None
      | BzOut out \<Rightarrow>
          (if bz2_needs_input w (hist @ [(data, m)]) then Some ([out], hist @ [(data, m)])
           else (case bz2_frag w m n (hist @ [(data, m)]) [] of
                   None \<Rightarrow> None
                 | Some (outs, h) \<Rightarrow> Some (out # outs, h))))"

fun bz2_feed :: "world \<Rightarrow> int \<Rightarrow> nat \<Rightarrow> dcall list \<Rightarrow> bytes list \<Rightarrow> (bytes list \<times> dcall list) option" where
  "bz2_feed w m n hist [] = Some ([], hist)"
| "bz2_feed w m n hist (f # fs) =
     (case bz2_frag w m n hist f of
        None \<Rightarrow> None
      | Some (outs, h) \<Rightarrow>
          (case bz2_feed w m n h fs of
             None \<Rightarrow> None
           | Some (outs', h') \<Rightarrow> Some (outs @ outs', h')))"

text \<open>
  The same for a \<^verbatim>\<open>zlib\<close> decompression object, which keeps no input: \<open>z_frag\<close>
  gives it a fragment and then, for as long as there is one, the unconsumed
  tail of the call before.
\<close>

fun z_frag :: "world \<Rightarrow> int \<Rightarrow> nat \<Rightarrow> dcall list \<Rightarrow> bytes \<Rightarrow> (bytes list \<times> dcall list) option" where
  "z_frag w m 0 hist data = None"
| "z_frag w m (Suc n) hist data =
     (case z_decompress w hist (data, m) of
        ZError \<Rightarrow> None
      | ZOut out \<Rightarrow>
          (if length (z_unconsumed_tail w (hist @ [(data, m)])) > 0
           then (case z_frag w m n (hist @ [(data, m)])
                        (z_unconsumed_tail w (hist @ [(data, m)])) of
                   None \<Rightarrow> None
                 | Some (outs, h) \<Rightarrow> Some (out # outs, h))
           else Some ([out], hist @ [(data, m)])))"

fun z_feed :: "world \<Rightarrow> int \<Rightarrow> nat \<Rightarrow> dcall list \<Rightarrow> bytes list \<Rightarrow> (bytes list \<times> dcall list) option" where
  "z_feed w m n hist [] = Some ([], hist)"
| "z_feed w m n hist (f # fs) =
     (case z_frag w m n hist f of
        None \<Rightarrow> None
      | Some (outs, h) \<Rightarrow>
          (case z_feed w m n h fs of
             None \<Rightarrow> None
           | Some (outs', h') \<Rightarrow> Some (outs @ outs', h')))"

subsection \<open>The caller of the write pipeline\<close>

text \<open>
  Modelled from the spec: the client that sends an image to \<^verbatim>\<open>sd_write_gz\<close> or
  \<^verbatim>\<open>sd_write_bz2\<close> is not in the source file. The return contract of section 4.4
  says that a positive status asks for the next chunk, that 0 asks for the next
  chunk or for an empty buffer to continue draining, and that a negative
  status is a failure. It leaves the caller two answers to a status of 0, and
  there is a caller for each.

  The first caller answers a status of 0 with an empty buffer and sends the
  next fragment after a positive status only; a negative status or an
  exception ends the transfer. \<open>bz2_send\<close> and \<open>gz_send\<close> make its calls for one
  fragment, at most \<open>k\<close> of them; \<open>bz2_drive\<close> and \<open>gz_drive\<close> send a list of
  fragments and return whether all were taken.
\<close>

fun bz2_send :: "nat \<Rightarrow> world \<Rightarrow> bytes \<Rightarrow> session \<Rightarrow> agent \<Rightarrow> int result option" where
  "bz2_send 0 w data session s = None"
| "bz2_send (Suc k) w data session s =
     (case sd_write_bz2 w data session s of
        None \<Rightarrow> None
      | Some (Raised e, s1) \<Rightarrow> Some (Raised e, s1)
      | Some (Returned status, s1) \<Rightarrow>
          (if status = 0 then bz2_send k w [] session s1 else Some (Returned status, s1)))"

fun bz2_drive :: "nat \<Rightarrow> world \<Rightarrow> bytes list \<Rightarrow> session \<Rightarrow> agent \<Rightarrow> bool result option" where
  "bz2_drive k w [] session s = Some (Returned True, s)"
| "bz2_drive k w (f # fs) session s =
     (case bz2_send k w f session s of
        None \<Rightarrow> None
      | Some (Raised e, s1) \<Rightarrow> Some (Raised e, s1)
      | Some (Returned status, s1) \<Rightarrow>
          (if status < 0 then Some (Returned False, s1) else bz2_drive k w fs session s1))"

fun gz_send :: "nat \<Rightarrow> world \<Rightarrow> bytes \<Rightarrow> session \<Rightarrow> agent \<Rightarrow> int result option" where
  "gz_send 0 w data session s = None"
| "gz_send (Suc k) w data session s =
     (case sd_write_gz w data session s of
        None \<Rightarrow> None
      | Some (Raised e, s1) \<Rightarrow> Some (Raised e, s1)
      | Some (Returned status, s1) \<Rightarrow>
          (if status = 0 then gz_send k w [] session s1 else Some (Returned status, s1)))"

fun gz_drive :: "nat \<Rightarrow> world \<Rightarrow> bytes list \<Rightarrow> session \<Rightarrow> agent \<Rightarrow> bool result option" where
  "gz_drive k w [] session s = Some (Returned True, s)"
| "gz_drive k w (f # fs) session s =
     (case gz_send k w f session s of
        None \<Rightarrow> None
      | Some (Raised e, s1) \<Rightarrow> Some (Raised e, s1)
      | Some (Returned status, s1) \<Rightarrow>
          (if status < 0 then Some (Returned False, s1) else gz_drive k w fs session s1))"

text \<open>
  Modelled from the spec: the second caller sends the next fragment after every
  status that is not negative, 0 included, for as long as fragments remain.
  After the last fragment nothing is left to send, and it answers a status of
  0 with empty buffers, as the first caller does.
\<close>

fun gz_drive_next :: "nat \<Rightarrow> world \<Rightarrow> bytes list \<Rightarrow> session \<Rightarrow> agent \<Rightarrow> bool result option" where
  "gz_drive_next k w [] session s = Some (Returned True, s)"
| "gz_drive_next k w [f] session s = gz_drive k w [f] session s"
| "gz_drive_next k w (f # g # fs) session s =
     (case sd_write_gz w f session s of
        None \<Rightarrow> None
      | Some (Raised e, s1) \<Rightarrow> Some (Raised e, s1)
      | Some (Returned status, s1) \<Rightarrow>
          (if status < 0 then Some (Returned False, s1)
           else gz_drive_next k w (g # fs) session s1))"

fun bz2_drive_next :: "nat \<Rightarrow> world \<Rightarrow> bytes list \<Rightarrow> session \<Rightarrow> agent \<Rightarrow> bool result option" where
  "bz2_drive_next k w [] session s = Some (Returned True, s)"
| "bz2_drive_next k w [f] session s = bz2_drive k w [f] session s"
| "bz2_drive_next k w (f # g # fs) session s =
     (case sd_write_bz2 w f session s of
        None \<Rightarrow> None
      | Some (Raised e, s1) \<Rightarrow> Some (Raised e, s1)
      | Some (Returned status, s1) \<Rightarrow>
          (if status < 0 then Some (Returned False, s1)
           else bz2_drive_next k w (g # fs) session s1))"

text \<open>
  What a transfer takes for granted: the SD-mux driver accepts every write,
  and the caller's session is not up against an owner recorded without an
  expiry, the one state in which \<^verbatim>\<open>_check_expired\<close> raises.
\<close>

definition accepts_writes :: "world \<Rightarrow> bool" where
  "accepts_writes w = (\<forall>t d. drv_bool w t (MuxWrite d))"

definition expiry_ok :: "session \<Rightarrow> agent \<Rightarrow> bool" where
  "expiry_ok session s =
     (if truthy (lock_owner s) \<and> lock_owner s \<noteq> session
      then lock_expiry s \<noteq> None else True)"

subsection \<open>What blocks a swap\<close>

text \<open>
  The swaps among the driver calls made, and the conditions of \<^verbatim>\<open>sd_locked\<close> that
  do not depend on the lease: no SD-mux driver, no power controller, a write
  session open, or a power driver that does not report \<^verbatim>\<open>OFF\<close>.
\<close>

definition swaps :: "call list \<Rightarrow> call list" where
  "swaps t = filter (\<lambda>c. c = MuxToHost \<or> c = MuxToTarget) t"

definition blocked :: "world \<Rightarrow> agent \<Rightarrow> bool" where
  "blocked w s = (if sdmux_controller s then
                    (if power_controller s then
                       (if sd_opened s then True else drv_str w (trace s) PowerStatus \<noteq> ''OFF'')
                     else True)
                  else True)"

subsection \<open>Holding the lease\<close>

text \<open>
  Session \<open>a\<close> holds the lease in state \<open>s\<close>: it is the recorded owner, and the
  lease has not expired at the next two readings of the clock, which are the
  readings a refused call of another session makes. An owner that Python
  takes for false (the empty string) is never checked for expiry.
\<close>

definition holds_lease :: "world \<Rightarrow> string \<Rightarrow> agent \<Rightarrow> bool" where
  "holds_lease w a s =
     (lock_owner s = Some a \<and>
      (if a = [] then True
       else (case lock_expiry s of
               None \<Rightarrow> False
             | Some e \<Rightarrow> monotonic w (ticks s) < e \<and> monotonic w (Suc (ticks s)) < e)))"

text \<open>
  A call is refused with the value \<open>v\<close>: it returns \<open>v\<close>, no driver primitive was
  invoked, and the lease is as it was.
\<close>

definition refused :: "'a \<Rightarrow> 'a result \<Rightarrow> agent \<Rightarrow> bool" where
  "refused v r s =
     (fst r = Returned v \<and> trace (snd r) = trace s \<and>
      lock_owner (snd r) = lock_owner s \<and> lock_expiry (snd r) = lock_expiry s)"

subsection \<open>An example environment\<close>

text \<open>
  A small world to evaluate the operations in: the clock is given, every
  driver call succeeds, the power driver reports \<^verbatim>\<open>OFF\<close>. Its two decompressors
  read a toy format, where a stream is a payload without full stops closed by
  one full stop. They follow the calling conventions of the Python classes.
  \<open>toy_bz2\<close> keeps the input it has not decoded, signals with \<open>needs_input\<close>
  whether more output can be had without input, keeps what follows the end
  of the stream as \<open>unused_data\<close>, and raises \<^verbatim>\<open>EOFError\<close> when called after the
  end. \<open>toy_z\<close> hands back the input it has not decoded as
  \<open>unconsumed_tail\<close>.
\<close>

record toy_bz2 =
  pending :: bytes
  ended :: bool
  unused :: bytes
  wants :: bool

definition payload :: "bytes \<Rightarrow> bytes" where
  "payload buf = takeWhile (\<lambda>c. c \<noteq> CHR ''.'') buf"

definition toy_bz2_next :: "toy_bz2 \<Rightarrow> dcall \<Rightarrow> toy_bz2" where
  "toy_bz2_next d c =
     (if ended d then d
      else (let buf = pending d @ fst c in
            if length (payload buf) > nat (snd c)
            then \<lparr>pending = drop (nat (snd c)) buf, ended = False, unused = [], wants = False\<rparr>
            else if length (payload buf) < length buf
            then \<lparr>pending = [], ended = True,
                  unused = drop (Suc (length (payload buf))) buf, wants = False\<rparr>
            else \<lparr>pending = [], ended = False, unused = [], wants = True\<rparr>))"

definition toy_bz2_state :: "dcall list \<Rightarrow> toy_bz2" where
  "toy_bz2_state hist =
     foldl toy_bz2_next \<lparr>pending = [], ended = False, unused = [], wants = True\<rparr> hist"

definition toy_bz2_decompress :: "dcall list \<Rightarrow> dcall \<Rightarrow> bz2_reply" where
  "toy_bz2_decompress hist c =
     (if ended (toy_bz2_state hist) then BzEOFError
      else BzOut (take (nat (snd c)) (payload (pending (toy_bz2_state hist) @ fst c))))"

record toy_z =
  z_ended :: bool
  z_tail :: bytes

definition toy_z_next :: "toy_z \<Rightarrow> dcall \<Rightarrow> toy_z" where
  "toy_z_next d c =
     (if z_ended d then \<lparr>z_ended = True, z_tail = []\<rparr>
      else if length (payload (fst c)) > nat (snd c)
      then \<lparr>z_ended = False, z_tail = drop (nat (snd c)) (fst c)\<rparr>
      else \<lparr>z_ended = (length (payload (fst c)) < length (fst c)), z_tail = []\<rparr>)"

definition toy_z_state :: "dcall list \<Rightarrow> toy_z" where
  "toy_z_state hist = foldl toy_z_next \<lparr>z_ended = False, z_tail = []\<rparr> hist"

definition toy_z_decompress :: "dcall list \<Rightarrow> dcall \<Rightarrow> z_reply" where
  "toy_z_decompress hist c =
     (if z_ended (toy_z_state hist) then ZOut []
      else ZOut (take (nat (snd c)) (payload (fst c))))"

definition demo_world :: "(nat \<Rightarrow> real) \<Rightarrow> world" where
  "demo_world clock =
     \<lparr> monotonic = clock, drv_bool = (\<lambda>h c. True), drv_str = (\<lambda>h c. ''OFF''),
       drv_int = (\<lambda>h c. 0), log_reply = (\<lambda>h c. VNone),
       POWER_OFF = ''OFF'', POWER_LOCKED = ''LOCKED'',
       SD_ON_HOST = ''HOST'', SD_ON_TARGET = ''TARGET'',
       POWERED_OFF = 0, POWERED_ON = 1,
       bz2_decompress = toy_bz2_decompress,
       bz2_needs_input = (\<lambda>h. wants (toy_bz2_state h)),
       bz2_unused_data = (\<lambda>h. unused (toy_bz2_state h)),
       z_decompress = toy_z_decompress,
       z_unconsumed_tail = (\<lambda>h. z_tail (toy_z_state h)) \<rparr>"

text \<open>The clock that always reads \<open>t\<close>, and the clock that reads the given times in turn.\<close>

definition still :: "real \<Rightarrow> nat \<Rightarrow> real" where
  "still t n = t"

definition readings :: "real list \<Rightarrow> nat \<Rightarrow> real" where
  "readings ts n = (if n < length ts then ts ! n else last ts)"

text \<open>
  An agent with all three drivers configured, whose lease session \<^verbatim>\<open>A\<close> holds
  until time 300.
\<close>

definition leased :: agent where
  "leased = init\<lparr>console_logger := True, power_controller := True,
     sdmux_controller := True, lock_owner := Some ''A'', lock_expiry := Some 300\<rparr>"

text \<open>
  The agent with a power controller and an SD-mux driver configured and no
  lease taken yet, and an agent with a registry of three USB switches.
\<close>

definition configured :: agent where
  "configured = init\<lparr>power_controller := True, sdmux_controller := True\<rparr>"

definition three_switches :: agent where
  "three_switches = init\<lparr>usb_switches := [''hub'', ''disk'', ''cam'']\<rparr>"

text \<open>An agent with an SD-mux driver that decompresses two bytes at a time.\<close>

definition small_blocks :: agent where
  "small_blocks = init\<lparr>sdmux_controller := True, blksz := 2\<rparr>"

text \<open>What a call shows to the outside: its outcome and the driver calls made so far.\<close>

definition seen :: "'a result \<Rightarrow> 'a outcome \<times> call list" where
  "seen r = (fst r, trace (snd r))"

definition seen_opt :: "'a result option \<Rightarrow> ('a outcome \<times> call list) option" where
  "seen_opt r = map_option seen r"

text \<open>
  What a transfer has come to: its outcome, the buffers the SD-mux driver was
  given to write, and the counter of bytes written.
\<close>

definition delivered :: "'a result option \<Rightarrow> ('a outcome \<times> bytes list \<times> int) option" where
  "delivered r = map_option (\<lambda>r. (fst r, sink (trace (snd r)), bytes_written (snd r))) r"

text \<open>
  For the proofs about the two loops: the state after the \<^verbatim>\<open>bz2\<close> loop has
  made further \<^verbatim>\<open>decompress\<close> calls (history \<open>h\<close>), written the outputs \<open>outs\<close>
  and read the clock \<open>j\<close> times; and the same for the \<^verbatim>\<open>gzip\<close> loop, which
  also leaves \<open>zdata\<close>.
\<close>

definition wrote :: "agent \<Rightarrow> dcall list \<Rightarrow> bytes list \<Rightarrow> nat \<Rightarrow> agent" where
  "wrote s h outs j =
     s\<lparr>bz2dec := Some h, trace := trace s @ map MuxWrite outs,
       bytes_written := bytes_written s + int (length (concat outs)),
       ticks := ticks s + j\<rparr>"

definition z_wrote :: "agent \<Rightarrow> dcall list \<Rightarrow> bytes list \<Rightarrow> nat \<Rightarrow> zattr \<Rightarrow> agent" where
  "z_wrote s h outs j zd =
     s\<lparr>zdec := Some h, trace := trace s @ map MuxWrite outs,
       bytes_written := bytes_written s + int (length (concat outs)),
       ticks := ticks s + j, zdata := zd\<rparr>"

subsection \<open>Sequences of operations\<close>

text \<open>
  One constructor for each public method of the agent, grouped as the source groups
  them, and the state the agent is left in after the call, whether the call
  returned or raised. The two compressed writes may loop for ever, so the state
  after an operation is optional.
\<close>

datatype console_op =
    ConsoleClear session | ConsoleFlush session | ConsoleHead session
  | ConsoleLines session | ConsoleLocked session | ConsolePrint string session
  | ConsolePrompt "string option" session | ConsoleRun string session
  | ConsoleSend string bool session | ConsoleTail session | ToggleTimestamps

datatype target_op =
    PowerLocked session | TargetLock session | TargetLocked session | TargetOwner
  | TargetOn session | TargetOff session | TargetStatus session
  | TargetToggle session | TargetUnlock session

datatype sd_op =
    SdBytesWritten session | SdClose session | SdLocked session
  | SdMount "string option" session | SdUpdate string int bytes session
  | SdOpen session | SdStatus session | SdWriteBz2 bytes session
  | SdWriteGz bytes session | SdWriteRaw bytes session
  | SdToHost session | SdToTarget session | SdToggle session

datatype usb_op =
    UsbFindByClass string session | UsbHasClass string session
  | UsbOffAt int session | UsbOffByClass string session | UsbOnAt int session
  | UsbOnByClass string session | UsbPorts session | UsbStatusAt int session
  | UsbToggleAt int session

datatype op = Console console_op | Target target_op | Sd sd_op | Usb usb_op

primrec console_after :: "world \<Rightarrow> console_op \<Rightarrow> agent \<Rightarrow> agent" where
  "console_after w (ConsoleClear session) s = snd (console_clear w session s)"
| "console_after w (ConsoleFlush session) s = snd (console_flush w session s)"
| "console_after w (ConsoleHead session) s = snd (console_head w session s)"
| "console_after w (ConsoleLines session) s = snd (console_lines w session s)"
| "console_after w (ConsoleLocked session) s = snd (console_locked w session s)"
| "console_after w (ConsolePrint data session) s = snd (console_print w data session s)"
| "console_after w (ConsolePrompt p session) s = snd (console_prompt w p session s)"
| "console_after w (ConsoleRun cmd session) s = snd (console_run w cmd session s)"
| "console_after w (ConsoleSend data raw session) s = snd (console_send w data raw session s)"
| "console_after w (ConsoleTail session) s = snd (console_tail w session s)"
| "console_after w ToggleTimestamps s = snd (toggle_timestamps w s)"

primrec target_after :: "world \<Rightarrow> target_op \<Rightarrow> agent \<Rightarrow> agent" where
  "target_after w (PowerLocked session) s = snd (power_locked w session s)"
| "target_after w (TargetLock session) s = snd (target_lock w session s)"
| "target_after w (TargetLocked session) s = snd (target_locked w session s)"
| "target_after w TargetOwner s = s"
| "target_after w (TargetOn session) s = snd (target_on w session s)"
| "target_after w (TargetOff session) s = snd (target_off w session s)"
| "target_after w (TargetStatus session) s = snd (target_status w session s)"
| "target_after w (TargetToggle session) s = snd (target_toggle w session s)"
| "target_after w (TargetUnlock session) s = snd (target_unlock w session s)"

primrec sd_after :: "world \<Rightarrow> sd_op \<Rightarrow> agent \<Rightarrow> agent option" where
  "sd_after w (SdBytesWritten session) s = Some (snd (sd_bytes_written w session s))"
| "sd_after w (SdClose session) s = Some (snd (sd_close w session s))"
| "sd_after w (SdLocked session) s = Some (snd (sd_locked w session s))"
| "sd_after w (SdMount part session) s = Some (snd (sd_mount w part session s))"
| "sd_after w (SdUpdate dst offset data session) s
     = Some (snd (sd_update w dst offset data session s))"
| "sd_after w (SdOpen session) s = Some (snd (sd_open w session s))"
| "sd_after w (SdStatus session) s = Some (snd (sd_status w session s))"
| "sd_after w (SdWriteBz2 data session) s = map_option snd (sd_write_bz2 w data session s)"
| "sd_after w (SdWriteGz data session) s = map_option snd (sd_write_gz w data session s)"
| "sd_after w (SdWriteRaw data session) s = Some (snd (sd_write_raw w data session s))"
| "sd_after w (SdToHost session) s = Some (snd (sd_to_host w session s))"
| "sd_after w (SdToTarget session) s = Some (snd (sd_to_target w session s))"
| "sd_after w (SdToggle session) s = Some (snd (sd_toggle w session s))"

primrec usb_after :: "world \<Rightarrow> usb_op \<Rightarrow> agent \<Rightarrow> agent" where
  "usb_after w (UsbFindByClass c session) s = snd (usb_find_by_class w c session s)"
| "usb_after w (UsbHasClass c session) s = snd (usb_has_class w c session s)"
| "usb_after w (UsbOffAt ndx session) s = snd (usb_off w ndx session s)"
| "usb_after w (UsbOffByClass c session) s = snd (usb_off_by_class w c session s)"
| "usb_after w (UsbOnAt ndx session) s = snd (usb_on w ndx session s)"
| "usb_after w (UsbOnByClass c session) s = snd (usb_on_by_class w c session s)"
| "usb_after w (UsbPorts session) s = snd (usb_ports w session s)"
| "usb_after w (UsbStatusAt ndx session) s = snd (usb_status w ndx session s)"
| "usb_after w (UsbToggleAt ndx session) s = snd (usb_toggle w ndx session s)"

primrec state_after :: "world \<Rightarrow> op \<Rightarrow> agent \<Rightarrow> agent option" where
  "state_after w (Console c) s = Some (console_after w c s)"
| "state_after w (Target c) s = Some (target_after w c s)"
| "state_after w (Sd c) s = sd_after w c s"
| "state_after w (Usb c) s = Some (usb_after w c s)"

fun run :: "world \<Rightarrow> op list \<Rightarrow> agent \<Rightarrow> agent option" where
  "run w [] s = Some s"
| "run w (c # cs) s = (case state_after w c s of None \<Rightarrow> None | Some s1 \<Rightarrow> run w cs s1)"

section \<open>Properties\<close>

subsection \<open>Sequencing\<close>

lemma bnd_Returned: "bnd (Returned v, s) f = f v s"
  by (simp add: bnd_def)

lemma bnd_Raised: "bnd (Raised e, s) f = (Raised e, s)"
  by (simp add: bnd_def)

subsection \<open>Acquiring the lease\<close>

text \<open>
  C2. \<^verbatim>\<open>target_lock\<close> does not always return: on the agent as \<^verbatim>\<open>__init__\<close> builds
  it, with the lease timeout set to 1, \<^verbatim>\<open>target_lock(S1)\<close> returns true and
  leaves the expiry \<^verbatim>\<open>None\<close>, and the \<^verbatim>\<open>target_lock(S2)\<close> that follows raises
  \<^verbatim>\<open>TypeError\<close> in \<^verbatim>\<open>_check_expired\<close>, whatever the clock reads, where the claim
  has it return false.
\<close>

theorem target_lock_second_session_raises:
  "target_lock w (Some ''S1'') (init\<lparr>lock_timeout := 1\<rparr>)
     = (Returned True, init\<lparr>lock_timeout := 1, lock_owner := Some ''S1''\<rparr>)
   \<and> target_lock w (Some ''S2'') (init\<lparr>lock_timeout := 1, lock_owner := Some ''S1''\<rparr>)
     = (Raised TypeError, init\<lparr>lock_timeout := 1, lock_owner := Some ''S1'', ticks := 1\<rparr>)"
  by (simp add: target_lock_def check_expired_def truthy_def init_def bnd_def target_owner_def)

subsection \<open>Operations that raise\<close>

text \<open>
  C9. Not every operation returns a sentinel: with no power controller
  configured \<^verbatim>\<open>target_toggle\<close> raises \<^verbatim>\<open>AttributeError\<close> for every session, and
  with an SD-mux driver configured the first \<^verbatim>\<open>sd_write_gz\<close> with an empty buffer
  raises \<^verbatim>\<open>AttributeError\<close> too.
\<close>

theorem target_toggle_and_sd_write_gz_raise:
  "target_toggle w session init = (Raised AttributeError, init)
   \<and> sd_write_gz w [] session (init\<lparr>sdmux_controller := True\<rparr>)
     = Some (Raised AttributeError, init\<lparr>sdmux_controller := True, zdec := Some []\<rparr>)"
  by (simp add: target_toggle_def power_locked_def sd_write_gz_def check_expired_def
      truthy_def init_def bnd_def target_owner_def check_locked_def)

subsection \<open>The example environment\<close>

lemma demo_simps:
  "monotonic (demo_world c) = c"
  "drv_bool (demo_world c) h x = True"
  "drv_str (demo_world c) h x = ''OFF''"
  "drv_int (demo_world c) h x = 0"
  "POWER_LOCKED (demo_world c) = ''LOCKED''"
  "z_decompress (demo_world c) = toy_z_decompress"
  "bz2_decompress (demo_world c) = toy_bz2_decompress"
  "bz2_needs_input (demo_world c) h' = wants (toy_bz2_state h')"
  "bz2_unused_data (demo_world c) h' = unused (toy_bz2_state h')"
  "z_unconsumed_tail (demo_world c) h' = z_tail (toy_z_state h')"
  by (simp_all add: demo_world_def)

subsection \<open>Expiry processing\<close>

lemma check_expired_foreign_keep:
  "lock_owner s = Some a \<Longrightarrow> a \<noteq> [] \<Longrightarrow> b \<noteq> Some a \<Longrightarrow> lock_expiry s = Some e \<Longrightarrow>
   monotonic w (ticks s) < e \<Longrightarrow>
   check_expired w b s = (Returned (), s\<lparr>ticks := Suc (ticks s)\<rparr>)"
  by (simp add: check_expired_def Let_def truthy_def)

lemma check_expired_foreign_reclaim:
  "lock_owner s = Some a \<Longrightarrow> a \<noteq> [] \<Longrightarrow> b \<noteq> Some a \<Longrightarrow> lock_expiry s = Some e \<Longrightarrow>
   e \<le> monotonic w (ticks s) \<Longrightarrow>
   check_expired w b s = (Returned (), s\<lparr>ticks := Suc (ticks s), lock_owner := None\<rparr>)"
  by (simp add: check_expired_def Let_def truthy_def)

lemma check_expired_falsy:
  "\<not> truthy (lock_owner s) \<Longrightarrow> check_expired w b s = (Returned (), s)"
  by (simp add: check_expired_def)

lemma check_expired_owner:
  "lock_owner s = Some a \<Longrightarrow> a \<noteq> [] \<Longrightarrow>
   check_expired w (Some a) s =
     (Returned (), s\<lparr>ticks := Suc (ticks s),
                     lock_expiry := Some (monotonic w (ticks s) + lock_timeout s * 60)\<rparr>)"
  by (simp add: check_expired_def Let_def truthy_def)

subsection \<open>What the lease gates\<close>

text \<open>
  While \<open>a\<close> holds the lease, the two expiry checks of a refused call of
  another session change nothing but the count of clock readings.
\<close>

lemma holds_lease_checks:
  assumes "holds_lease w a s" "b \<noteq> Some a"
  obtains k where "check_expired w b s = (Returned (), s\<lparr>ticks := ticks s + k\<rparr>)"
    and "check_expired w b (s\<lparr>ticks := ticks s + k\<rparr>)
           = (Returned (), s\<lparr>ticks := ticks s + (k + k)\<rparr>)"
proof (cases "a = []")
  case True
  with assms have "\<not> truthy (lock_owner s)"
    by (simp add: holds_lease_def truthy_def)
  then have "check_expired w b s = (Returned (), s)"
    by (rule check_expired_falsy)
  then show ?thesis using that[of 0] by simp
next
  case False
  with assms obtain e where e: "lock_owner s = Some a" "lock_expiry s = Some e"
      "monotonic w (ticks s) < e" "monotonic w (Suc (ticks s)) < e"
    by (auto simp add: holds_lease_def split: option.splits)
  have 1: "check_expired w b s = (Returned (), s\<lparr>ticks := Suc (ticks s)\<rparr>)"
    using e False assms(2) by (simp add: check_expired_foreign_keep)
  have 2: "check_expired w b (s\<lparr>ticks := Suc (ticks s)\<rparr>)
             = (Returned (), s\<lparr>ticks := Suc (Suc (ticks s))\<rparr>)"
    using e False assms(2) by (simp add: check_expired_foreign_keep)
  show ?thesis using that[of 1] 1 2 by simp
qed

lemma holds_lease_locked:
  "holds_lease w a s \<Longrightarrow> b \<noteq> Some a \<Longrightarrow> check_locked b (s\<lparr>ticks := n\<rparr>)"
  by (auto simp add: holds_lease_def check_locked_def target_owner_def)

lemma holds_lease_logged:
  "holds_lease w a (s\<lparr>logged := l\<rparr>) = holds_lease w a s"
  by (simp add: holds_lease_def split: option.splits)

lemma power_locked_refused:
  assumes "holds_lease w a s" "b \<noteq> Some a"
  obtains k where "check_expired w b s = (Returned (), s\<lparr>ticks := ticks s + k\<rparr>)"
    and "power_locked w b (s\<lparr>ticks := ticks s + k\<rparr>)
           = (Returned True, s\<lparr>ticks := ticks s + (k + k)\<rparr>)"
proof -
  from holds_lease_checks[OF assms] obtain k where
    k: "check_expired w b s = (Returned (), s\<lparr>ticks := ticks s + k\<rparr>)"
       "check_expired w b (s\<lparr>ticks := ticks s + k\<rparr>)
          = (Returned (), s\<lparr>ticks := ticks s + (k + k)\<rparr>)"
    by blast
  have "power_locked w b (s\<lparr>ticks := ticks s + k\<rparr>)
          = (Returned True, s\<lparr>ticks := ticks s + (k + k)\<rparr>)"
    using k(2) holds_lease_locked[OF assms] by (simp add: power_locked_def bnd_Returned)
  with k(1) show ?thesis using that by blast
qed

lemma sd_locked_refused:
  assumes "holds_lease w a s" "b \<noteq> Some a"
  obtains k where "check_expired w b s = (Returned (), s\<lparr>ticks := ticks s + k\<rparr>)"
    and "sd_locked w b (s\<lparr>ticks := ticks s + k\<rparr>)
           = (Returned True, s\<lparr>ticks := ticks s + (k + k)\<rparr>)"
proof -
  from holds_lease_checks[OF assms] obtain k where
    k: "check_expired w b s = (Returned (), s\<lparr>ticks := ticks s + k\<rparr>)"
       "check_expired w b (s\<lparr>ticks := ticks s + k\<rparr>)
          = (Returned (), s\<lparr>ticks := ticks s + (k + k)\<rparr>)"
    by blast
  have "sd_locked w b (s\<lparr>ticks := ticks s + k\<rparr>)
          = (Returned True, s\<lparr>ticks := ticks s + (k + k)\<rparr>)"
    using k(2) holds_lease_locked[OF assms] by (simp add: sd_locked_def bnd_Returned)
  with k(1) show ?thesis using that by blast
qed

text \<open>
  C1, as the code has it. While session \<open>a\<close> holds the lease, the power
  operations and the two swaps called by any other session \<open>b\<close> are refused:
  \<^verbatim>\<open>target_on\<close>, \<^verbatim>\<open>target_off\<close>, \<^verbatim>\<open>sd_to_host\<close> and \<^verbatim>\<open>sd_to_target\<close> return false,
  \<^verbatim>\<open>target_toggle\<close> returns the power driver's \<^verbatim>\<open>POWER_LOCKED\<close> when a power
  controller is configured; no driver primitive is invoked and the lease
  stays as it was. The operations of the write pipeline are not in the
  statement: the lease does not gate them.
\<close>

theorem foreign_session_refused:
  assumes "holds_lease w a s" and "b \<noteq> Some a"
  shows "refused False (target_on w b s) s
       \<and> refused False (target_off w b s) s
       \<and> (power_controller s \<longrightarrow> refused (POWER_LOCKED w) (target_toggle w b s) s)
       \<and> refused False (sd_to_host w b s) s
       \<and> refused False (sd_to_target w b s) s"
proof -
  have on: "refused False (target_on w b s) s"
  proof -
    let ?s0 = "if console_logger s then snd (call_log w LogResume s) else s"
    have h: "holds_lease w a ?s0"
      using assms(1) by (simp add: call_log_def holds_lease_logged)
    from power_locked_refused[OF h assms(2)] obtain k where
      "check_expired w b ?s0 = (Returned (), ?s0\<lparr>ticks := ticks ?s0 + k\<rparr>)"
      "power_locked w b (?s0\<lparr>ticks := ticks ?s0 + k\<rparr>)
         = (Returned True, ?s0\<lparr>ticks := ticks ?s0 + (k + k)\<rparr>)"
      by blast
    then show ?thesis
      by (simp add: refused_def target_on_def bnd_Returned Let_def call_log_def)
  qed
  from power_locked_refused[OF assms] obtain k where
    k: "check_expired w b s = (Returned (), s\<lparr>ticks := ticks s + k\<rparr>)"
       "power_locked w b (s\<lparr>ticks := ticks s + k\<rparr>)
          = (Returned True, s\<lparr>ticks := ticks s + (k + k)\<rparr>)"
    by blast
  have off: "refused False (target_off w b s) s"
    using k by (simp add: refused_def target_off_def bnd_Returned)
  have toggle: "power_controller s \<longrightarrow> refused (POWER_LOCKED w) (target_toggle w b s) s"
    using k by (simp add: refused_def target_toggle_def bnd_Returned)
  from sd_locked_refused[OF assms] obtain j where
    j: "check_expired w b s = (Returned (), s\<lparr>ticks := ticks s + j\<rparr>)"
       "sd_locked w b (s\<lparr>ticks := ticks s + j\<rparr>)
          = (Returned True, s\<lparr>ticks := ticks s + (j + j)\<rparr>)"
    by blast
  have host: "refused False (sd_to_host w b s) s"
    using j by (simp add: refused_def sd_to_host_def bnd_Returned)
  have target: "refused False (sd_to_target w b s) s"
    using j by (simp add: refused_def sd_to_target_def bnd_Returned)
  from on off toggle host target show ?thesis by blast
qed

text \<open>The statement at session \<^verbatim>\<open>B\<close>, while \<^verbatim>\<open>A\<close> holds the lease of the example agent.\<close>

theorem foreign_session_refused_witness:
  "holds_lease (demo_world (still 0)) ''A'' leased \<and> Some ''B'' \<noteq> Some ''A''
   \<and> power_controller leased
   \<and> refused False (target_on (demo_world (still 0)) (Some ''B'') leased) leased
   \<and> refused False (target_off (demo_world (still 0)) (Some ''B'') leased) leased
   \<and> refused (POWER_LOCKED (demo_world (still 0)))
       (target_toggle (demo_world (still 0)) (Some ''B'') leased) leased
   \<and> refused False (sd_to_host (demo_world (still 0)) (Some ''B'') leased) leased
   \<and> refused False (sd_to_target (demo_world (still 0)) (Some ''B'') leased) leased"
proof -
  have h: "holds_lease (demo_world (still 0)) ''A'' leased"
    by (simp add: holds_lease_def leased_def demo_simps still_def init_def)
  have d: "Some ''B'' \<noteq> Some ''A''" by simp
  have p: "power_controller leased" by (simp add: leased_def)
  from foreign_session_refused[OF h d] h d p show ?thesis by blast
qed

text \<open>
  C1 as stated fails on the write pipeline. While \<^verbatim>\<open>A\<close> holds the lease,
  each of \<^verbatim>\<open>sd_open\<close>, \<^verbatim>\<open>sd_close\<close>, \<^verbatim>\<open>sd_mount\<close>, \<^verbatim>\<open>sd_write_raw\<close>, \<^verbatim>\<open>sd_write_gz\<close> and
  \<^verbatim>\<open>sd_write_bz2\<close> called by \<^verbatim>\<open>B\<close> reaches the SD-mux driver and returns its
  result.
\<close>

theorem write_pipeline_not_gated:
  "holds_lease (demo_world (still 0)) ''A'' leased
   \<and> seen (sd_open (demo_world (still 0)) (Some ''B'') leased) = (Returned True, [MuxOpen])
   \<and> seen (sd_close (demo_world (still 0)) (Some ''B'') (leased\<lparr>sd_opened := True\<rparr>))
       = (Returned True, [MuxClose])
   \<and> seen (sd_mount (demo_world (still 0)) None (Some ''B'') leased)
       = (Returned True, [MuxMount None])
   \<and> seen (sd_write_raw (demo_world (still 0)) ''ab'' (Some ''B'') leased)
       = (Returned 65536, [MuxWrite ''ab''])
   \<and> seen_opt (sd_write_gz (demo_world (still 0)) ''ab.'' (Some ''B'') leased)
       = Some (Returned 65536, [MuxWrite ''ab''])
   \<and> seen_opt (sd_write_bz2 (demo_world (still 0)) ''ab.'' (Some ''B'') leased)
       = Some (Returned 0, [MuxWrite ''ab''])"
proof -
  have h: "holds_lease (demo_world (still 0)) ''A'' leased"
    by (simp add: holds_lease_def leased_def demo_simps still_def init_def)
  have 1: "seen (sd_open (demo_world (still 0)) (Some ''B'') leased) = (Returned True, [MuxOpen])"
    by (simp add: seen_def sd_open_def sd_close_def check_expired_def truthy_def leased_def
        init_def demo_simps still_def bnd_def call_bool_def Let_def)
  have 2: "seen (sd_close (demo_world (still 0)) (Some ''B'') (leased\<lparr>sd_opened := True\<rparr>))
             = (Returned True, [MuxClose])"
    by (simp add: seen_def sd_close_def check_expired_def truthy_def leased_def
        init_def demo_simps still_def bnd_def call_bool_def Let_def)
  have 3: "seen (sd_mount (demo_world (still 0)) None (Some ''B'') leased)
             = (Returned True, [MuxMount None])"
    by (simp add: seen_def sd_mount_def check_expired_def truthy_def leased_def
        init_def demo_simps still_def bnd_def call_bool_def Let_def)
  have 4: "seen (sd_write_raw (demo_world (still 0)) ''ab'' (Some ''B'') leased)
             = (Returned 65536, [MuxWrite ''ab''])"
    by (simp add: seen_def sd_write_raw_def check_expired_def truthy_def leased_def
        init_def demo_simps still_def bnd_def call_bool_def Let_def)
  have 5: "seen_opt (sd_write_gz (demo_world (still 0)) ''ab.'' (Some ''B'') leased)
             = Some (Returned 65536, [MuxWrite ''ab''])"
    apply (simp add: sd_write_gz_def check_expired_def truthy_def leased_def init_def
        demo_simps still_def)
    apply (subst sd_write_gz_loop.simps)
    apply (simp add: seen_opt_def seen_def sd_write_gz_priv_def toy_z_decompress_def
        toy_z_state_def toy_z_next_def payload_def call_bool_def Let_def demo_simps)
    done
  have 6: "seen_opt (sd_write_bz2 (demo_world (still 0)) ''ab.'' (Some ''B'') leased)
             = Some (Returned 0, [MuxWrite ''ab''])"
    apply (simp add: sd_write_bz2_def check_expired_def truthy_def leased_def init_def
        demo_simps still_def)
    apply (subst sd_write_bz2_loop.simps)
    apply (simp add: sd_write_bz2_priv_def toy_bz2_decompress_def toy_bz2_state_def
        toy_bz2_next_def payload_def call_bool_def Let_def demo_simps)
    apply (subst sd_write_bz2_loop.simps)
    apply (simp add: seen_opt_def seen_def sd_write_bz2_priv_def toy_bz2_decompress_def
        toy_bz2_state_def toy_bz2_next_def payload_def call_bool_def Let_def dec_hist_def
        demo_simps)
    done
  from h 1 2 3 4 5 6 show ?thesis by blast
qed

subsection \<open>Renewal and reclaim\<close>

text \<open>
  C3, as the code has it. A call of the lease owner moves the expiry to the
  clock reading plus the timeout (in minutes, so times 60), before the expiry
  time as well as after it: \<^verbatim>\<open>_check_expired\<close> tests for the owner first and
  never reclaims the lease from it. A call of another session leaves the lease
  alone before the expiry time and clears the owner from the expiry time on;
  the former owner then finds no owner, is not locked out, and
  \<^verbatim>\<open>target_lock\<close> gives it the lease again.
\<close>

theorem lease_renewal_and_reclaim:
  assumes "lock_owner s = Some a" and "a \<noteq> []"
  shows "check_expired w (Some a) s
           = (Returned (), s\<lparr>ticks := Suc (ticks s),
                lock_expiry := Some (monotonic w (ticks s) + lock_timeout s * 60)\<rparr>)
    \<and> (\<forall>b e. b \<noteq> Some a \<and> lock_expiry s = Some e \<and> monotonic w (ticks s) < e \<longrightarrow>
          check_expired w b s = (Returned (), s\<lparr>ticks := Suc (ticks s)\<rparr>))
    \<and> (\<forall>b e. b \<noteq> Some a \<and> lock_expiry s = Some e \<and> e \<le> monotonic w (ticks s) \<longrightarrow>
          check_expired w b s = (Returned (), s\<lparr>ticks := Suc (ticks s), lock_owner := None\<rparr>)
          \<and> target_locked w (Some a) (s\<lparr>ticks := Suc (ticks s), lock_owner := None\<rparr>)
              = (Returned False, s\<lparr>ticks := Suc (ticks s), lock_owner := None\<rparr>)
          \<and> target_lock w (Some a) (s\<lparr>ticks := Suc (ticks s), lock_owner := None\<rparr>)
              = (Returned True, s\<lparr>ticks := Suc (ticks s), lock_owner := Some a\<rparr>))"
proof -
  have renew: "check_expired w (Some a) s
           = (Returned (), s\<lparr>ticks := Suc (ticks s),
                lock_expiry := Some (monotonic w (ticks s) + lock_timeout s * 60)\<rparr>)"
    using assms by (rule check_expired_owner)
  have keep: "\<forall>b e. b \<noteq> Some a \<and> lock_expiry s = Some e \<and> monotonic w (ticks s) < e \<longrightarrow>
          check_expired w b s = (Returned (), s\<lparr>ticks := Suc (ticks s)\<rparr>)"
    using assms by (simp add: check_expired_foreign_keep)
  have gone: "\<not> truthy (lock_owner (s\<lparr>ticks := Suc (ticks s), lock_owner := None\<rparr>))"
    by (simp add: truthy_def)
  have locked: "target_locked w (Some a) (s\<lparr>ticks := Suc (ticks s), lock_owner := None\<rparr>)
              = (Returned False, s\<lparr>ticks := Suc (ticks s), lock_owner := None\<rparr>)"
    by (simp add: target_locked_def check_expired_falsy[OF gone] bnd_Returned check_locked_def
        target_owner_def)
  have again: "target_lock w (Some a) (s\<lparr>ticks := Suc (ticks s), lock_owner := None\<rparr>)
              = (Returned True, s\<lparr>ticks := Suc (ticks s), lock_owner := Some a\<rparr>)"
    by (simp add: target_lock_def check_expired_falsy[OF gone] bnd_Returned target_owner_def)
  have reclaim: "\<forall>b e. b \<noteq> Some a \<and> lock_expiry s = Some e \<and> e \<le> monotonic w (ticks s) \<longrightarrow>
          check_expired w b s = (Returned (), s\<lparr>ticks := Suc (ticks s), lock_owner := None\<rparr>)"
    using assms by (simp add: check_expired_foreign_reclaim)
  from renew keep reclaim locked again show ?thesis by blast
qed

text \<open>
  The statement on the example agent, whose lease expires at 300: the
  owner's call at 400, another session's call at 299 and at 300.
\<close>

theorem lease_renewal_and_reclaim_witness:
  "lock_owner leased = Some ''A'' \<and> lock_expiry leased = Some 300
   \<and> check_expired (demo_world (still 400)) (Some ''A'') leased
       = (Returned (), leased\<lparr>ticks := 1, lock_expiry := Some 700\<rparr>)
   \<and> check_expired (demo_world (still 299)) (Some ''B'') leased
       = (Returned (), leased\<lparr>ticks := 1\<rparr>)
   \<and> check_expired (demo_world (still 300)) (Some ''B'') leased
       = (Returned (), leased\<lparr>ticks := 1, lock_owner := None\<rparr>)
   \<and> target_locked (demo_world (still 300)) (Some ''A'') (leased\<lparr>ticks := 1, lock_owner := None\<rparr>)
       = (Returned False, leased\<lparr>ticks := 1, lock_owner := None\<rparr>)
   \<and> target_lock (demo_world (still 300)) (Some ''A'') (leased\<lparr>ticks := 1, lock_owner := None\<rparr>)
       = (Returned True, leased\<lparr>ticks := 1, lock_owner := Some ''A''\<rparr>)"
proof -
  have o: "lock_owner leased = Some ''A''" and e: "lock_expiry leased = Some 300"
    and t: "ticks leased = 0" and l: "lock_timeout leased = 5"
    by (simp_all add: leased_def init_def)
  have n: "''A'' \<noteq> []" by simp
  have d: "Some ''B'' \<noteq> Some ''A''" by simp
  note th = lease_renewal_and_reclaim[OF o n]
  have 1: "check_expired (demo_world (still 400)) (Some ''A'') leased
       = (Returned (), leased\<lparr>ticks := 1, lock_expiry := Some 700\<rparr>)"
    using th[of "demo_world (still 400)"] by (simp add: t l demo_simps still_def)
  have 2: "check_expired (demo_world (still 299)) (Some ''B'') leased
       = (Returned (), leased\<lparr>ticks := 1\<rparr>)"
    using th[of "demo_world (still 299)", THEN conjunct2, THEN conjunct1, THEN spec, THEN spec,
        of "Some ''B''" 300] e
    by (simp add: t demo_simps still_def)
  have 3: "check_expired (demo_world (still 300)) (Some ''B'') leased
       = (Returned (), leased\<lparr>ticks := 1, lock_owner := None\<rparr>)
   \<and> target_locked (demo_world (still 300)) (Some ''A'') (leased\<lparr>ticks := 1, lock_owner := None\<rparr>)
       = (Returned False, leased\<lparr>ticks := 1, lock_owner := None\<rparr>)
   \<and> target_lock (demo_world (still 300)) (Some ''A'') (leased\<lparr>ticks := 1, lock_owner := None\<rparr>)
       = (Returned True, leased\<lparr>ticks := 1, lock_owner := Some ''A''\<rparr>)"
    using th[of "demo_world (still 300)", THEN conjunct2, THEN conjunct2, THEN spec, THEN spec,
        of "Some ''B''" 300] e
    by (simp add: t demo_simps still_def)
  from o e 1 2 3 show ?thesis by blast
qed

text \<open>
  C3 as stated fails in its second half: at time 400, past the expiry at 300,
  the owner's own call finds the lease still its own and renews it to 700.
\<close>

theorem owner_call_after_expiry_renews:
  "lock_owner leased = Some ''A'' \<and> lock_expiry leased = Some 300
   \<and> monotonic (demo_world (still 400)) (ticks leased) = 400
   \<and> target_locked (demo_world (still 400)) (Some ''A'') leased
       = (Returned False, leased\<lparr>ticks := 1, lock_expiry := Some 700\<rparr>)
   \<and> target_owner (leased\<lparr>ticks := 1, lock_expiry := Some 700\<rparr>) = Some ''A''"
  by (simp add: target_locked_def check_expired_def truthy_def leased_def init_def demo_simps
      still_def bnd_def check_locked_def target_owner_def Let_def)

subsection \<open>USB switches: invalid indices\<close>

text \<open>Expiry processing touches the lease and the count of clock readings only.\<close>

lemma check_expired_frame:
  "check_expired w session s = (r, s') \<Longrightarrow>
   s' = s\<lparr>ticks := ticks s', lock_owner := lock_owner s', lock_expiry := lock_expiry s'\<rparr>"
  by (auto simp add: check_expired_def Let_def split: if_splits option.splits)

lemma check_expired_usb:
  "check_expired w session s = (r, s') \<Longrightarrow> usb_switches s' = usb_switches s"
  by (auto simp add: check_expired_def Let_def split: if_splits option.splits)

text \<open>
  C8, as the code has it, for a call whose expiry processing returns. With an
  index of 0 or below, \<^verbatim>\<open>usb_on\<close>, \<^verbatim>\<open>usb_off\<close> and \<^verbatim>\<open>usb_toggle\<close> return \<^verbatim>\<open>None\<close> and
  \<^verbatim>\<open>usb_status\<close> returns \<^verbatim>\<open>"???"\<close>, and nothing is reported: the state is the one
  expiry processing left. With an index above the size of the registry the
  four operations return, \<^verbatim>\<open>usb_status\<close> with \<^verbatim>\<open>"ERR"\<close>, after printing the line
  \<^verbatim>\<open>invalid USB switch #\<close> and the index. In both cases no driver is invoked
  and the registry is unchanged.
\<close>

theorem usb_invalid_index:
  assumes "check_expired w session s = (Returned (), s1)"
  shows "(ndx \<le> 0 \<longrightarrow>
            usb_on w ndx session s = (Returned (), s1)
          \<and> usb_off w ndx session s = (Returned (), s1)
          \<and> usb_toggle w ndx session s = (Returned (), s1)
          \<and> usb_status w ndx session s = (Returned ''???'', s1))
       \<and> (ndx > int (length (usb_switches s)) \<longrightarrow>
            usb_on w ndx session s
              = (Returned (), s1\<lparr>stderr := stderr s1 @ [''invalid USB switch #'' @ str ndx]\<rparr>)
          \<and> usb_off w ndx session s
              = (Returned (), s1\<lparr>stderr := stderr s1 @ [''invalid USB switch #'' @ str ndx]\<rparr>)
          \<and> usb_toggle w ndx session s
              = (Returned (), s1\<lparr>stderr := stderr s1 @ [''invalid USB switch #'' @ str ndx]\<rparr>)
          \<and> usb_status w ndx session s
              = (Returned ''ERR'', s1\<lparr>stderr := stderr s1 @ [''invalid USB switch #'' @ str ndx]\<rparr>))
       \<and> trace s1 = trace s \<and> stderr s1 = stderr s \<and> usb_switches s1 = usb_switches s"
proof -
  have u: "usb_switches s1 = usb_switches s"
    using assms by (rule check_expired_usb)
  have f: "trace s1 = trace s \<and> stderr s1 = stderr s"
    using assms by (auto simp add: check_expired_def Let_def split: if_splits option.splits)
  have low: "ndx \<le> 0 \<longrightarrow>
            usb_on w ndx session s = (Returned (), s1)
          \<and> usb_off w ndx session s = (Returned (), s1)
          \<and> usb_toggle w ndx session s = (Returned (), s1)
          \<and> usb_status w ndx session s = (Returned ''???'', s1)"
    using assms by (simp add: usb_on_def usb_off_def usb_toggle_def usb_indexed_def usb_status_def
        bnd_Returned)
  have high: "ndx > int (length (usb_switches s)) \<longrightarrow>
            usb_on w ndx session s
              = (Returned (), s1\<lparr>stderr := stderr s1 @ [''invalid USB switch #'' @ str ndx]\<rparr>)
          \<and> usb_off w ndx session s
              = (Returned (), s1\<lparr>stderr := stderr s1 @ [''invalid USB switch #'' @ str ndx]\<rparr>)
          \<and> usb_toggle w ndx session s
              = (Returned (), s1\<lparr>stderr := stderr s1 @ [''invalid USB switch #'' @ str ndx]\<rparr>)
          \<and> usb_status w ndx session s
              = (Returned ''ERR'', s1\<lparr>stderr := stderr s1 @ [''invalid USB switch #'' @ str ndx]\<rparr>)"
  proof
    assume h: "ndx > int (length (usb_switches s))"
    then have "ndx > 0" and "\<not> nat (ndx - 1) < length (usb_switches s1)"
      using u by auto
    then show "usb_on w ndx session s
              = (Returned (), s1\<lparr>stderr := stderr s1 @ [''invalid USB switch #'' @ str ndx]\<rparr>)
          \<and> usb_off w ndx session s
              = (Returned (), s1\<lparr>stderr := stderr s1 @ [''invalid USB switch #'' @ str ndx]\<rparr>)
          \<and> usb_toggle w ndx session s
              = (Returned (), s1\<lparr>stderr := stderr s1 @ [''invalid USB switch #'' @ str ndx]\<rparr>)
          \<and> usb_status w ndx session s
              = (Returned ''ERR'', s1\<lparr>stderr := stderr s1 @ [''invalid USB switch #'' @ str ndx]\<rparr>)"
      using assms by (simp add: usb_on_def usb_off_def usb_toggle_def usb_indexed_def usb_status_def
        bnd_Returned)
  qed
  from low high f u show ?thesis by blast
qed

text \<open>
  The statement on a registry of three switches: index 0, and index 5 with
  its \<^verbatim>\<open>"ERR"\<close>.
\<close>

theorem usb_invalid_index_witness:
  "check_expired (demo_world (still 0)) None three_switches = (Returned (), three_switches)
   \<and> (0::int) \<le> 0 \<and> 5 > int (length (usb_switches three_switches))
   \<and> usb_on (demo_world (still 0)) 0 None three_switches = (Returned (), three_switches)
   \<and> usb_status (demo_world (still 0)) 0 None three_switches = (Returned ''???'', three_switches)
   \<and> usb_on (demo_world (still 0)) 5 None three_switches
       = (Returned (), three_switches\<lparr>stderr := [''invalid USB switch #5'']\<rparr>)
   \<and> usb_status (demo_world (still 0)) 5 None three_switches
       = (Returned ''ERR'', three_switches\<lparr>stderr := [''invalid USB switch #5'']\<rparr>)"
proof -
  have c: "check_expired (demo_world (still 0)) None three_switches = (Returned (), three_switches)"
    by (simp add: check_expired_def truthy_def three_switches_def init_def)
  have n: "5 > int (length (usb_switches three_switches))"
    by (simp add: three_switches_def)
  have e: "stderr three_switches = []"
    by (simp add: three_switches_def init_def)
  have s: "str 5 = ''5''"
    by (simp add: str_def str_nat.simps digit_def)
  from usb_invalid_index[OF c, of 0] usb_invalid_index[OF c, of 5] c n e s
  show ?thesis by simp
qed

text \<open>
  C8 as stated fails at index 0, where no error is reported: on the three
  switches \<^verbatim>\<open>usb_status(0)\<close> returns \<^verbatim>\<open>"???"\<close>, not \<^verbatim>\<open>"ERR"\<close>, the other three
  return \<^verbatim>\<open>None\<close>, and nothing is printed.
\<close>

theorem usb_index_zero_not_reported:
  "usb_status (demo_world (still 0)) 0 None three_switches = (Returned ''???'', three_switches)
   \<and> usb_on (demo_world (still 0)) 0 None three_switches = (Returned (), three_switches)
   \<and> usb_off (demo_world (still 0)) 0 None three_switches = (Returned (), three_switches)
   \<and> usb_toggle (demo_world (still 0)) 0 None three_switches = (Returned (), three_switches)
   \<and> stderr three_switches = []"
  by (simp add: usb_status_def usb_on_def usb_off_def usb_toggle_def usb_indexed_def
      check_expired_def truthy_def three_switches_def init_def bnd_def)

subsection \<open>Calls of another session before the first renewal\<close>

text \<open>
  C4. \<^verbatim>\<open>sd_locked\<close> is not true in every state in which another session
  holds the lease: after \<^verbatim>\<open>target_lock(A)\<close> on an agent with both drivers
  configured the expiry is still \<^verbatim>\<open>None\<close>, and \<^verbatim>\<open>sd_locked(B)\<close> raises \<^verbatim>\<open>TypeError\<close>
  in \<^verbatim>\<open>_check_expired\<close>, whatever the clock reads.
\<close>

theorem sd_locked_raises_on_fresh_lease:
  "target_lock w (Some ''A'') configured = (Returned True, configured\<lparr>lock_owner := Some ''A''\<rparr>)
   \<and> sd_locked w (Some ''B'') (configured\<lparr>lock_owner := Some ''A''\<rparr>)
       = (Raised TypeError, configured\<lparr>lock_owner := Some ''A'', ticks := 1\<rparr>)"
  by (simp add: target_lock_def sd_locked_def check_expired_def truthy_def configured_def init_def
      bnd_def target_owner_def)

text \<open>
  C10. A \<^verbatim>\<open>sd_mount\<close> after a successful one does not return true for every
  session: \<^verbatim>\<open>sd_mount()\<close> succeeds and sets the flag, \<^verbatim>\<open>target_lock(A)\<close> takes the
  lease, and \<^verbatim>\<open>sd_mount\<close> called by \<^verbatim>\<open>B\<close> raises \<^verbatim>\<open>TypeError\<close> in \<^verbatim>\<open>_check_expired\<close>
  before it looks at the flag. The flag itself stays set.
\<close>

theorem sd_mount_raises_on_fresh_lease:
  "sd_mount (demo_world (still 0)) None None configured
     = (Returned True, configured\<lparr>sd_mounted := True, trace := [MuxMount None]\<rparr>)
   \<and> target_lock (demo_world (still 0)) (Some ''A'')
       (configured\<lparr>sd_mounted := True, trace := [MuxMount None]\<rparr>)
     = (Returned True,
        configured\<lparr>sd_mounted := True, trace := [MuxMount None], lock_owner := Some ''A''\<rparr>)
   \<and> sd_mount (demo_world (still 0)) None (Some ''B'')
       (configured\<lparr>sd_mounted := True, trace := [MuxMount None], lock_owner := Some ''A''\<rparr>)
     = (Raised TypeError,
        configured\<lparr>sd_mounted := True, trace := [MuxMount None], lock_owner := Some ''A'',
          ticks := 1\<rparr>)"
  by (simp add: target_lock_def sd_mount_def check_expired_def truthy_def configured_def init_def
      bnd_def target_owner_def call_bool_def demo_simps)

subsection \<open>Closing twice\<close>

lemma check_expired_again:
  assumes "check_expired w session s = (Returned (), s1)"
    and "lock_owner t = lock_owner s1" and "lock_expiry t = lock_expiry s1"
  shows "fst (check_expired w session t) = Returned ()"
  using assms
  by (auto simp add: check_expired_def Let_def truthy_def split: if_splits option.splits)

lemma check_expired_result:
  assumes "fst (check_expired w session t) = Returned ()"
  shows "check_expired w session t
     = (Returned (), t\<lparr>ticks := ticks (snd (check_expired w session t)),
          lock_owner := lock_owner (snd (check_expired w session t)),
          lock_expiry := lock_expiry (snd (check_expired w session t))\<rparr>)"
proof -
  obtain r t' where e: "check_expired w session t = (r, t')" by (cases "check_expired w session t")
  with assms have "r = Returned ()" by simp
  with e check_expired_frame[OF e] show ?thesis by simp
qed

lemma sd_close_result:
  assumes "sdmux_controller s" and "check_expired w session s = (Returned (), s1)"
  shows "sd_close w session s =
     (if sd_opened s
      then (Returned (\<not> \<not> drv_bool w (trace s) MuxClose),
            s1\<lparr>bz2dec := None, zdec := None, trace := trace s @ [MuxClose],
               sd_opened := \<not> drv_bool w (trace s) MuxClose\<rparr>)
      else (Returned True, s1\<lparr>bz2dec := None, zdec := None\<rparr>))"
proof -
  have f: "sdmux_controller s1 = sdmux_controller s" "sd_opened s1 = sd_opened s" "trace s1 = trace s"
    using assms(2) by (auto simp add: check_expired_def Let_def split: if_splits option.splits)
  show ?thesis using assms f
    by (simp add: sd_close_def bnd_Returned Let_def call_bool_def)
qed

text \<open>
  What holds of two calls in a row when the expiry processing of the first
  returns (that of the second then returns too). With an SD-mux driver
  configured whose \<^verbatim>\<open>close()\<close> succeeds, both calls of \<^verbatim>\<open>sd_close\<close> return true,
  both leave the decoders discarded and \<open>sd_opened\<close> false, the driver's
  \<^verbatim>\<open>close()\<close> is invoked by the first call only, and only when a write session
  was open. The state after two calls is the state after one in every field
  of the write pipeline; the second call's expiry processing touches the
  lease and the count of clock readings only.
\<close>

lemma sd_close_twice:
  assumes "sdmux_controller s" and "drv_bool w (trace s) MuxClose"
    and "check_expired w session s = (Returned (), s1)"
  shows "fst (sd_close w session s) = Returned True
       \<and> fst (sd_close w session (snd (sd_close w session s))) = Returned True
       \<and> sd_opened (snd (sd_close w session s)) = False
       \<and> bz2dec (snd (sd_close w session s)) = None
       \<and> zdec (snd (sd_close w session s)) = None
       \<and> sd_opened (snd (sd_close w session (snd (sd_close w session s)))) = False
       \<and> bz2dec (snd (sd_close w session (snd (sd_close w session s)))) = None
       \<and> zdec (snd (sd_close w session (snd (sd_close w session s)))) = None
       \<and> trace (snd (sd_close w session s)) = (if sd_opened s then trace s @ [MuxClose] else trace s)
       \<and> trace (snd (sd_close w session (snd (sd_close w session s))))
           = trace (snd (sd_close w session s))
       \<and> snd (sd_close w session (snd (sd_close w session s)))
           = (snd (sd_close w session s))
               \<lparr>ticks := ticks (snd (sd_close w session (snd (sd_close w session s)))),
                lock_owner := lock_owner (snd (sd_close w session (snd (sd_close w session s)))),
                lock_expiry := lock_expiry (snd (sd_close w session (snd (sd_close w session s))))\<rparr>"
proof -
  define t where "t = snd (sd_close w session s)"
  have r1: "sd_close w session s = (Returned True, t)"
    and t: "t = (if sd_opened s
                then s1\<lparr>bz2dec := None, zdec := None, trace := trace s @ [MuxClose], sd_opened := False\<rparr>
                else s1\<lparr>bz2dec := None, zdec := None\<rparr>)"
    unfolding t_def using sd_close_result[OF assms(1,3)] assms(2) by simp_all
  have f: "sd_opened s1 = sd_opened s" "trace s1 = trace s" "sdmux_controller s1 = sdmux_controller s"
    using assms(3) by (auto simp add: check_expired_def Let_def split: if_splits option.splits)
  have tf: "sd_opened t = False" "bz2dec t = None" "zdec t = None" "sdmux_controller t"
    "trace t = (if sd_opened s then trace s @ [MuxClose] else trace s)"
    "lock_owner t = lock_owner s1" "lock_expiry t = lock_expiry s1"
    using t f assms(1) by (simp_all split: if_splits)
  have "fst (check_expired w session t) = Returned ()"
    using check_expired_again[OF assms(3) tf(6,7)] .
  from check_expired_result[OF this] obtain t' where
    c2: "check_expired w session t = (Returned (), t')"
    and t': "t' = t\<lparr>ticks := ticks t', lock_owner := lock_owner t', lock_expiry := lock_expiry t'\<rparr>"
    by (metis snd_conv)
  have r2: "sd_close w session t = (Returned True, t'\<lparr>bz2dec := None, zdec := None\<rparr>)"
    using sd_close_result[OF tf(4) c2] tf(1) by simp
  have eq: "t'\<lparr>bz2dec := None, zdec := None\<rparr>
      = t\<lparr>ticks := ticks (t'\<lparr>bz2dec := None, zdec := None\<rparr>),
          lock_owner := lock_owner (t'\<lparr>bz2dec := None, zdec := None\<rparr>),
          lock_expiry := lock_expiry (t'\<lparr>bz2dec := None, zdec := None\<rparr>)\<rparr>"
    apply (subst t')
    apply (cases t)
    using tf(2,3) apply simp
    done
  have tr: "trace (t'\<lparr>bz2dec := None, zdec := None\<rparr>) = trace t"
    by (subst t') simp
  have op: "sd_opened (t'\<lparr>bz2dec := None, zdec := None\<rparr>) = False"
    using tf(1) by (subst t') simp
  show ?thesis
    unfolding t_def[symmetric] using r1 r2 tf eq tr op by simp
qed

text \<open>The statement on the example agent with a write session open, closed twice by the owner.\<close>

lemma sd_close_twice_witness:
  "sdmux_controller (leased\<lparr>sd_opened := True\<rparr>)
   \<and> drv_bool (demo_world (still 0)) (trace (leased\<lparr>sd_opened := True\<rparr>)) MuxClose
   \<and> check_expired (demo_world (still 0)) (Some ''A'') (leased\<lparr>sd_opened := True\<rparr>)
       = (Returned (), leased\<lparr>sd_opened := True, ticks := 1\<rparr>)
   \<and> seen (sd_close (demo_world (still 0)) (Some ''A'') (leased\<lparr>sd_opened := True\<rparr>))
       = (Returned True, [MuxClose])
   \<and> seen (sd_close (demo_world (still 0)) (Some ''A'')
         (snd (sd_close (demo_world (still 0)) (Some ''A'') (leased\<lparr>sd_opened := True\<rparr>))))
       = (Returned True, [MuxClose])
   \<and> sd_opened (snd (sd_close (demo_world (still 0)) (Some ''A'')
         (snd (sd_close (demo_world (still 0)) (Some ''A'') (leased\<lparr>sd_opened := True\<rparr>)))))
       = False"
proof -
  have m: "sdmux_controller (leased\<lparr>sd_opened := True\<rparr>)"
    by (simp add: leased_def)
  have d: "drv_bool (demo_world (still 0)) (trace (leased\<lparr>sd_opened := True\<rparr>)) MuxClose"
    by (simp add: demo_simps)
  have c: "check_expired (demo_world (still 0)) (Some ''A'') (leased\<lparr>sd_opened := True\<rparr>)
       = (Returned (), leased\<lparr>sd_opened := True, ticks := 1\<rparr>)"
    by (simp add: check_expired_def truthy_def leased_def init_def demo_simps still_def)
  have o: "sd_opened (leased\<lparr>sd_opened := True\<rparr>)" "trace (leased\<lparr>sd_opened := True\<rparr>) = []"
    by (simp_all add: leased_def init_def)
  from sd_close_twice[OF m d c] m d c o show ?thesis
    by (simp add: seen_def)
qed

text \<open>
  C5. Two calls of \<^verbatim>\<open>sd_close\<close> in a row are not safe in every state with an
  SD-mux driver whose \<^verbatim>\<open>close()\<close> succeeds. \<^verbatim>\<open>sd_open()\<close> opens a write session,
  \<^verbatim>\<open>target_lock(A)\<close> takes the lease and leaves the expiry \<^verbatim>\<open>None\<close>, and \<^verbatim>\<open>sd_close\<close>
  called by \<^verbatim>\<open>B\<close> raises \<^verbatim>\<open>TypeError\<close> in \<^verbatim>\<open>_check_expired\<close>, the first time and the
  second. Neither call returns true, the driver's \<^verbatim>\<open>close()\<close> is never invoked,
  and the write session stays open.
\<close>

theorem sd_close_twice_raises_on_fresh_lease:
  "sd_open (demo_world (still 0)) None configured
     = (Returned True, configured\<lparr>sd_opened := True, trace := [MuxOpen]\<rparr>)
   \<and> target_lock (demo_world (still 0)) (Some ''A'')
       (configured\<lparr>sd_opened := True, trace := [MuxOpen]\<rparr>)
     = (Returned True,
        configured\<lparr>sd_opened := True, trace := [MuxOpen], lock_owner := Some ''A''\<rparr>)
   \<and> sd_close (demo_world (still 0)) (Some ''B'')
       (configured\<lparr>sd_opened := True, trace := [MuxOpen], lock_owner := Some ''A''\<rparr>)
     = (Raised TypeError,
        configured\<lparr>sd_opened := True, trace := [MuxOpen], lock_owner := Some ''A'',
          ticks := 1\<rparr>)
   \<and> sd_close (demo_world (still 0)) (Some ''B'')
       (configured\<lparr>sd_opened := True, trace := [MuxOpen], lock_owner := Some ''A'',
          ticks := 1\<rparr>)
     = (Raised TypeError,
        configured\<lparr>sd_opened := True, trace := [MuxOpen], lock_owner := Some ''A'',
          ticks := 2\<rparr>)"
  by (simp add: sd_open_def sd_close_def target_lock_def check_expired_def truthy_def
      configured_def init_def bnd_def target_owner_def call_bool_def Let_def demo_simps)

subsection \<open>The bzip2 loop against the decompressor's own run\<close>

text \<open>
  One call of the loop of \<^verbatim>\<open>sd_write_bz2\<close> follows the run \<open>bz2_frag\<close> of the
  decompressor: either it reaches the point where the decompressor asks for
  input and returns the block size, or the feedback interval cuts it short
  (or a stream ends with nothing unused) and it returns 0 with the rest of
  the run still to do on an empty buffer. Every output of the run so far has
  been written, in order.
\<close>

lemma wrote_wrote:
  "wrote (wrote s h outs j) h' outs' j' = wrote s h' (outs @ outs') (j + j')"
  by (simp add: wrote_def add.assoc)

lemma wrote_fields:
  "bz2dec (wrote s h outs j) = Some h"
  "blksz (wrote s h outs j) = blksz s"
  "fbintvl (wrote s h outs j) = fbintvl s"
  "trace (wrote s h outs j) = trace s @ map MuxWrite outs"
  "bytes_written (wrote s h outs j) = bytes_written s + int (length (concat outs))"
  "ticks (wrote s h outs j) = ticks s + j"
  by (simp_all add: wrote_def)

lemma bz2_priv_eof:
  assumes "bz2dec s = Some hist" "bz2_decompress w hist (data, blksz s) = BzEOFError"
  shows "sd_write_bz2_priv w data s = (Raised EOFError, wrote s (hist @ [(data, blksz s)]) [] 0)"
  using assms by (simp add: sd_write_bz2_priv_def Let_def wrote_def)

lemma bz2_priv_out:
  assumes "bz2dec s = Some hist" "bz2_decompress w hist (data, blksz s) = BzOut out"
    and "accepts_writes w"
  shows "sd_write_bz2_priv w data s =
     (Returned (if bz2_needs_input w (hist @ [(data, blksz s)]) then blksz s else 0),
      wrote s (hist @ [(data, blksz s)]) [out] 0)"
  using assms
  by (simp add: sd_write_bz2_priv_def Let_def wrote_def call_bool_def accepts_writes_def)

lemma bz2_loop_frag:
  assumes "bz2_frag w m n hist data = Some (outs, hf)"
    and "bz2dec s = Some hist" and "blksz s = m" and "m \<noteq> 0" and "accepts_writes w"
  shows "\<exists>j st outs_a hist'.
           sd_write_bz2_loop w start data s = Some (Returned st, wrote s hist' outs_a j)
         \<and> ((st = m \<and> outs_a = outs \<and> hist' = hf)
            \<or> (st = 0 \<and> (\<exists>n' outs_b. n' < n \<and> bz2_frag w m n' hist' [] = Some (outs_b, hf)
                                  \<and> outs = outs_a @ outs_b)))"
  using assms
proof (induction n arbitrary: hist data s outs)
  case 0
  then show ?case by simp
next
  case (Suc n)
  let ?h = "hist @ [(data, m)]"
  have m: "blksz s = m" by fact
  show ?case
  proof (cases "bz2_decompress w hist (data, m)")
    case BzEOFError
    let ?u = "bz2_unused_data w ?h"
    let ?s2 = "wrote s [] [] 0"
    have frag: "bz2_frag w m n [] ?u = Some (outs, hf)"
      using Suc.prems(1) BzEOFError by simp
    have priv: "sd_write_bz2_priv w data s = (Raised EOFError, wrote s ?h [] 0)"
      using bz2_priv_eof[of s hist w data] Suc.prems(2) BzEOFError m by simp
    have s2: "(wrote s ?h [] 0)\<lparr>bz2dec := Some []\<rparr> = ?s2"
      by (simp add: wrote_def)
    show ?thesis
    proof (cases "?u = []")
      case True
      have "sd_write_bz2_loop w start data s = Some (Returned 0, ?s2)"
        apply (subst sd_write_bz2_loop.simps)
        using priv True s2 by (simp add: dec_hist_def wrote_fields)
      moreover have "n < Suc n \<and> bz2_frag w m n [] [] = Some (outs, hf) \<and> outs = [] @ outs"
        using frag True by simp
      ultimately show ?thesis by blast
    next
      case False
      have cont: "sd_write_bz2_loop w start data s = sd_write_bz2_loop w start ?u ?s2"
        apply (subst sd_write_bz2_loop.simps)
        using priv False s2 by (simp add: dec_hist_def wrote_fields)
      have "bz2dec ?s2 = Some []" "blksz ?s2 = m"
        using m by (simp_all add: wrote_fields)
      from Suc.IH[OF frag this Suc.prems(4,5)] obtain j st outs_a hist' where
        r: "sd_write_bz2_loop w start ?u ?s2 = Some (Returned st, wrote ?s2 hist' outs_a j)"
        and d: "(st = m \<and> outs_a = outs \<and> hist' = hf)
            \<or> (st = 0 \<and> (\<exists>n' outs_b. n' < n \<and> bz2_frag w m n' hist' [] = Some (outs_b, hf)
                                  \<and> outs = outs_a @ outs_b))"
        by blast
      have "sd_write_bz2_loop w start data s = Some (Returned st, wrote s hist' outs_a j)"
        using cont r by (simp add: wrote_wrote)
      moreover have "(st = m \<and> outs_a = outs \<and> hist' = hf)
            \<or> (st = 0 \<and> (\<exists>n' outs_b. n' < Suc n \<and> bz2_frag w m n' hist' [] = Some (outs_b, hf)
                                  \<and> outs = outs_a @ outs_b))"
        using d less_SucI by blast
      ultimately show ?thesis by blast
    qed
  next
    case BzOSError
    then show ?thesis using Suc.prems(1) by simp
  next
    case (BzOut out)
    let ?s1 = "wrote s ?h [out] 0"
    have priv: "sd_write_bz2_priv w data s =
        (Returned (if bz2_needs_input w ?h then m else 0), ?s1)"
      using bz2_priv_out[of s hist w data out] Suc.prems(2,5) BzOut m by simp
    show ?thesis
    proof (cases "bz2_needs_input w ?h")
      case True
      then have "outs = [out]" "hf = ?h"
        using Suc.prems(1) BzOut by simp_all
      moreover have "sd_write_bz2_loop w start data s = Some (Returned m, ?s1)"
        apply (subst sd_write_bz2_loop.simps)
        using priv True Suc.prems(4) by simp
      ultimately show ?thesis by blast
    next
      case False
      then obtain rest where rest: "bz2_frag w m n ?h [] = Some (rest, hf)" and o: "outs = out # rest"
        using Suc.prems(1) BzOut by (auto split: option.splits)
      let ?s2 = "wrote s ?h [out] 1"
      have s2: "?s1\<lparr>ticks := Suc (ticks ?s1)\<rparr> = ?s2"
        by (simp add: wrote_def)
      show ?thesis
      proof (cases "monotonic w (ticks s) - start \<ge> fbintvl s")
        case True
        have "sd_write_bz2_loop w start data s = Some (Returned 0, ?s2)"
          apply (subst sd_write_bz2_loop.simps)
          using priv False True s2 by (simp add: Let_def wrote_fields)
        moreover have "n < Suc n \<and> bz2_frag w m n ?h [] = Some (rest, hf) \<and> outs = [out] @ rest"
          using rest o by simp
        ultimately show ?thesis by blast
      next
        case nobox: False
        have cont: "sd_write_bz2_loop w start data s = sd_write_bz2_loop w start [] ?s2"
          apply (subst sd_write_bz2_loop.simps)
          using priv False nobox s2 by (simp add: Let_def wrote_fields)
        have "bz2dec ?s2 = Some ?h" "blksz ?s2 = m"
          using m by (simp_all add: wrote_fields)
        from Suc.IH[OF rest this Suc.prems(4,5)] obtain j st outs_a hist' where
          r: "sd_write_bz2_loop w start [] ?s2 = Some (Returned st, wrote ?s2 hist' outs_a j)"
          and d: "(st = m \<and> outs_a = rest \<and> hist' = hf)
            \<or> (st = 0 \<and> (\<exists>n' outs_b. n' < n \<and> bz2_frag w m n' hist' [] = Some (outs_b, hf)
                                  \<and> rest = outs_a @ outs_b))"
          by blast
        have "sd_write_bz2_loop w start data s
                = Some (Returned st, wrote s hist' (out # outs_a) (1 + j))"
          using cont r by (simp add: wrote_wrote)
        moreover have "(st = m \<and> out # outs_a = outs \<and> hist' = hf)
            \<or> (st = 0 \<and> (\<exists>n' outs_b. n' < Suc n \<and> bz2_frag w m n' hist' [] = Some (outs_b, hf)
                                  \<and> outs = (out # outs_a) @ outs_b))"
          using d o less_SucI by auto
        ultimately show ?thesis by blast
      qed
    qed
  qed
qed


lemma sink_append: "sink (t @ u) = sink t @ sink u"
  by (induction t) (auto split: call.splits)

lemma sink_writes: "sink (map MuxWrite outs) = outs"
  by (induction outs) auto

lemma check_expired_ok:
  assumes "expiry_ok session s"
  obtains s1 where "check_expired w session s = (Returned (), s1)"
    and "expiry_ok session s1"
    and "s1 = s\<lparr>ticks := ticks s1, lock_owner := lock_owner s1, lock_expiry := lock_expiry s1\<rparr>"
proof -
  obtain r s1 where c: "check_expired w session s = (r, s1)"
    by (cases "check_expired w session s")
  have "r = Returned ()" and "expiry_ok session s1"
    using c assms
    by (auto simp add: check_expired_def expiry_ok_def Let_def truthy_def
        split: if_splits option.splits)
  with c check_expired_frame[OF c] that show ?thesis by blast
qed

lemma expiry_ok_wrote:
  "expiry_ok session (wrote s h outs j) = expiry_ok session s"
  by (simp add: expiry_ok_def wrote_def)

lemma bz2_send_frag:
  assumes "bz2_frag w m n hist data = Some (outs, hf)"
    and "sdmux_controller s" and "blksz s = m" and "m \<noteq> 0"
    and "expiry_ok session s" and "dec_hist (bz2dec s) = hist" and "accepts_writes w"
  shows "\<exists>k s'. bz2_send k w data session s = Some (Returned m, s')
          \<and> sdmux_controller s' \<and> blksz s' = m \<and> expiry_ok session s' \<and> bz2dec s' = Some hf
          \<and> sink (trace s') = sink (trace s) @ outs
          \<and> bytes_written s' = bytes_written s + int (length (concat outs))"
  using assms
proof (induction n arbitrary: hist data s outs rule: less_induct)
  case (less n)
  from check_expired_ok[OF less.prems(5)] obtain s1 where
    c: "check_expired w session s = (Returned (), s1)" and ok1: "expiry_ok session s1"
    and f1: "s1 = s\<lparr>ticks := ticks s1, lock_owner := lock_owner s1, lock_expiry := lock_expiry s1\<rparr>"
    by blast
  define s2 where "s2 = (if bz2dec s1 = None then s1\<lparr>bz2dec := Some []\<rparr> else s1)"
  define s3 where "s3 = s2\<lparr>ticks := Suc (ticks s2)\<rparr>"
  have s1f: "sdmux_controller s1" "blksz s1 = m" "trace s1 = trace s"
    "bytes_written s1 = bytes_written s" "dec_hist (bz2dec s1) = hist"
    using less.prems(2,3,6) by (subst f1, simp)+
  have s3f: "bz2dec s3 = Some hist" "blksz s3 = m" "sdmux_controller s3" "trace s3 = trace s"
    "bytes_written s3 = bytes_written s" "expiry_ok session s3"
    using s1f ok1 unfolding s3_def s2_def
    by (auto simp add: dec_hist_def expiry_ok_def split: option.splits)
  have call: "sd_write_bz2 w data session s = sd_write_bz2_loop w (monotonic w (ticks s2)) data s3"
    using c s1f(1) unfolding s3_def s2_def by (simp add: sd_write_bz2_def Let_def)
  from bz2_loop_frag[OF less.prems(1) s3f(1,2) less.prems(4,7), of "monotonic w (ticks s2)"]
  obtain j st outs_a hist' where
    r: "sd_write_bz2_loop w (monotonic w (ticks s2)) data s3
          = Some (Returned st, wrote s3 hist' outs_a j)"
    and d: "(st = m \<and> outs_a = outs \<and> hist' = hf)
            \<or> (st = 0 \<and> (\<exists>n' outs_b. n' < n \<and> bz2_frag w m n' hist' [] = Some (outs_b, hf)
                                  \<and> outs = outs_a @ outs_b))"
    by blast
  let ?t = "wrote s3 hist' outs_a j"
  have tf: "sdmux_controller ?t" "blksz ?t = m" "expiry_ok session ?t" "bz2dec ?t = Some hist'"
    "sink (trace ?t) = sink (trace s) @ outs_a"
    "bytes_written ?t = bytes_written s + int (length (concat outs_a))"
    using s3f by (simp_all add: wrote_fields expiry_ok_wrote sink_append sink_writes, simp add: wrote_def)
  from d show ?case
  proof
    assume fin: "st = m \<and> outs_a = outs \<and> hist' = hf"
    then have "bz2_send (Suc 0) w data session s = Some (Returned m, ?t)"
      using call r less.prems(4) by simp
    with tf fin show ?thesis by blast
  next
    assume "st = 0 \<and> (\<exists>n' outs_b. n' < n \<and> bz2_frag w m n' hist' [] = Some (outs_b, hf)
                                  \<and> outs = outs_a @ outs_b)"
    then obtain n' outs_b where st: "st = 0" and n': "n' < n"
      and fr: "bz2_frag w m n' hist' [] = Some (outs_b, hf)" and o: "outs = outs_a @ outs_b"
      by blast
    have dh: "dec_hist (bz2dec ?t) = hist'"
      by (simp add: wrote_fields dec_hist_def)
    from less.IH[OF n' fr tf(1,2) less.prems(4) tf(3) dh less.prems(7)] obtain k s' where
      k: "bz2_send k w [] session ?t = Some (Returned m, s')"
      and s': "sdmux_controller s'" "blksz s' = m" "expiry_ok session s'" "bz2dec s' = Some hf"
        "sink (trace s') = sink (trace ?t) @ outs_b"
        "bytes_written s' = bytes_written ?t + int (length (concat outs_b))"
      by blast
    have "bz2_send (Suc k) w data session s = Some (Returned m, s')"
      using call r st k by simp
    moreover have "sink (trace s') = sink (trace s) @ outs"
      "bytes_written s' = bytes_written s + int (length (concat outs))"
      using s' tf o by simp_all
    ultimately show ?thesis using s' by blast
  qed
qed


lemma bz2_send_more:
  "bz2_send k w data session s = Some r \<Longrightarrow> bz2_send (k + j) w data session s = Some r"
proof (induction k arbitrary: data s)
  case 0
  then show ?case by simp
next
  case (Suc k)
  show ?case
  proof (cases "sd_write_bz2 w data session s")
    case None
    with Suc.prems show ?thesis by simp
  next
    case (Some a)
    obtain o1 s1 where a: "a = (o1, s1)" by (cases a)
    show ?thesis
    proof (cases o1)
      case (Returned status)
      show ?thesis
      proof (cases "status = 0")
        case True
        with Suc.prems Some a Returned have "bz2_send k w [] session s1 = Some r" by simp
        from Suc.IH[OF this] show ?thesis using Some a Returned True by simp
      next
        case False
        with Suc.prems Some a Returned show ?thesis by auto
      qed
    next
      case (Raised e)
      with Suc.prems Some a show ?thesis by auto
    qed
  qed
qed

lemma bz2_drive_more:
  "bz2_drive k w frags session s = Some (Returned True, s') \<Longrightarrow>
   bz2_drive (k + j) w frags session s = Some (Returned True, s')"
proof (induction frags arbitrary: s)
  case Nil
  then show ?case by simp
next
  case (Cons f fs)
  from Cons.prems obtain status s1 where
    snd1: "bz2_send k w f session s = Some (Returned status, s1)" and pos: "\<not> status < 0"
    and rest: "bz2_drive k w fs session s1 = Some (Returned True, s')"
    by (auto split: option.splits outcome.splits if_splits)
  from bz2_send_more[OF snd1, of j] Cons.IH[OF rest] pos show ?case by simp
qed

lemma bz2_drive_feed:
  assumes "bz2_feed w m n hist frags = Some (outs, hf)"
    and "sdmux_controller s" and "blksz s = m" and "0 < m"
    and "expiry_ok session s" and "dec_hist (bz2dec s) = hist" and "accepts_writes w"
  shows "\<exists>k s'. bz2_drive k w frags session s = Some (Returned True, s')
          \<and> sdmux_controller s' \<and> blksz s' = m \<and> expiry_ok session s'
          \<and> dec_hist (bz2dec s') = hf
          \<and> sink (trace s') = sink (trace s) @ outs
          \<and> bytes_written s' = bytes_written s + int (length (concat outs))"
  using assms
proof (induction frags arbitrary: hist s outs)
  case Nil
  then show ?case by simp
next
  case (Cons f fs)
  from Cons.prems(1) obtain o1 h1 o2 where
    f1: "bz2_frag w m n hist f = Some (o1, h1)" and f2: "bz2_feed w m n h1 fs = Some (o2, hf)"
    and o: "outs = o1 @ o2"
    by (auto split: option.splits)
  have m0: "m \<noteq> 0" using Cons.prems(4) by simp
  from bz2_send_frag[OF f1 Cons.prems(2,3) m0 Cons.prems(5,6,7)] obtain k1 s1 where
    k1: "bz2_send k1 w f session s = Some (Returned m, s1)"
    and s1: "sdmux_controller s1" "blksz s1 = m" "expiry_ok session s1" "bz2dec s1 = Some h1"
      "sink (trace s1) = sink (trace s) @ o1"
      "bytes_written s1 = bytes_written s + int (length (concat o1))"
    by blast
  have dh: "dec_hist (bz2dec s1) = h1" using s1(4) by (simp add: dec_hist_def)
  from Cons.IH[OF f2 s1(1,2) Cons.prems(4) s1(3) dh Cons.prems(7)] obtain k2 s' where
    k2: "bz2_drive k2 w fs session s1 = Some (Returned True, s')"
    and s': "sdmux_controller s'" "blksz s' = m" "expiry_ok session s'"
      "dec_hist (bz2dec s') = hf" "sink (trace s') = sink (trace s1) @ o2"
      "bytes_written s' = bytes_written s1 + int (length (concat o2))"
    by blast
  have a: "bz2_send (k1 + k2) w f session s = Some (Returned m, s1)"
    using bz2_send_more[OF k1] .
  have b: "bz2_drive (k1 + k2) w fs session s1 = Some (Returned True, s')"
    using bz2_drive_more[OF k2, of k1] by (simp add: add.commute)
  have "bz2_drive (k1 + k2) w (f # fs) session s = Some (Returned True, s')"
    using a b Cons.prems(4) by simp
  moreover have "sink (trace s') = sink (trace s) @ outs"
    "bytes_written s' = bytes_written s + int (length (concat outs))"
    using s' s1 o by simp_all
  ultimately show ?case using s' by blast
qed



subsection \<open>Concatenated bzip2 streams\<close>




subsection \<open>The gzip loop against the decompressor's own run\<close>

text \<open>
  The loop of \<^verbatim>\<open>sd_write_gz\<close> follows the run \<open>z_frag\<close> in the same way. When the
  feedback interval cuts it short, the unconsumed tail is left in \<open>zdata\<close>, and
  the next call, made with an empty buffer, takes it up from there.
\<close>

lemma z_wrote_z_wrote:
  "z_wrote (z_wrote s h outs j zd) h' outs' j' zd' = z_wrote s h' (outs @ outs') (j + j') zd'"
  by (simp add: z_wrote_def add.assoc)

lemma z_wrote_fields:
  "zdec (z_wrote s h outs j zd) = Some h"
  "zdata (z_wrote s h outs j zd) = zd"
  "blksz (z_wrote s h outs j zd) = blksz s"
  "fbintvl (z_wrote s h outs j zd) = fbintvl s"
  "sdmux_controller (z_wrote s h outs j zd) = sdmux_controller s"
  "trace (z_wrote s h outs j zd) = trace s @ map MuxWrite outs"
  "bytes_written (z_wrote s h outs j zd) = bytes_written s + int (length (concat outs))"
  "ticks (z_wrote s h outs j zd) = ticks s + j"
  by (simp_all add: z_wrote_def)

lemma expiry_ok_z_wrote:
  "expiry_ok session (z_wrote s h outs j zd) = expiry_ok session s"
  by (simp add: expiry_ok_def z_wrote_def)

lemma gz_priv_out:
  assumes "zdec s = Some hist" "z_decompress w hist (data, blksz s) = ZOut out"
    and "accepts_writes w"
  shows "sd_write_gz_priv w (Some data) s =
     (Returned (if length (z_unconsumed_tail w (hist @ [(data, blksz s)])) > 0 then 0 else blksz s),
      s\<lparr>zdec := Some (hist @ [(data, blksz s)]), trace := trace s @ [MuxWrite out],
         bytes_written := bytes_written s + int (length out)\<rparr>)"
  using assms
  by (simp add: sd_write_gz_priv_def Let_def call_bool_def accepts_writes_def)

lemma z_step_states:
  "s\<lparr>zdec := Some h, trace := trace s @ [MuxWrite out],
     bytes_written := bytes_written s + int (length out), zdata := PyNone\<rparr>
     = z_wrote s h [out] 0 PyNone"
  "s\<lparr>zdec := Some h, trace := trace s @ [MuxWrite out],
     bytes_written := bytes_written s + int (length out), zdata := PyNone,
     ticks := Suc (ticks s)\<rparr>
     = z_wrote s h [out] 1 PyNone"
  "s\<lparr>zdec := Some h, trace := trace s @ [MuxWrite out],
     bytes_written := bytes_written s + int (length out), zdata := PyNone,
     ticks := Suc (ticks s), zdata := Bytes tail\<rparr>
     = z_wrote s h [out] 1 (Bytes tail)"
  by (simp_all add: z_wrote_def)

lemma z_wrote_tick:
  "(z_wrote s h outs j zd)\<lparr>ticks := Suc (ticks (z_wrote s h outs j zd))\<rparr>
     = z_wrote s h outs (Suc j) zd"
  "(z_wrote s h outs j zd)\<lparr>ticks := Suc (ticks (z_wrote s h outs j zd)), zdata := zd'\<rparr>
     = z_wrote s h outs (Suc j) zd'"
  "(z_wrote s h outs j zd)\<lparr>zdata := zd'\<rparr> = z_wrote s h outs j zd'"
  by (simp_all add: z_wrote_def)

lemma gz_loop_frag:
  assumes "z_frag w m n hist data = Some (outs, hf)"
    and "zdec s = Some hist" and "blksz s = m" and "m \<noteq> 0" and "accepts_writes w"
  shows "\<exists>j st outs_a hist' zd.
           sd_write_gz_loop w start (Some data) s = Some (Returned st, z_wrote s hist' outs_a j zd)
         \<and> ((st = m \<and> outs_a = outs \<and> hist' = hf)
            \<or> (st = 0 \<and> (\<exists>n' outs_b tail. zd = Bytes tail \<and> n' < n
                       \<and> z_frag w m n' hist' tail = Some (outs_b, hf) \<and> outs = outs_a @ outs_b)))"
  using assms
proof (induction n arbitrary: hist data s outs)
  case 0
  then show ?case by simp
next
  case (Suc n)
  let ?h = "hist @ [(data, m)]"
  let ?tail = "z_unconsumed_tail w ?h"
  have m: "blksz s = m" by fact
  show ?case
  proof (cases "z_decompress w hist (data, m)")
    case ZError
    then show ?thesis using Suc.prems(1) by simp
  next
    case (ZOut out)
    have priv: "sd_write_gz_priv w (Some data) s =
        (Returned (if length ?tail > 0 then 0 else m),
         s\<lparr>zdec := Some ?h, trace := trace s @ [MuxWrite out],
           bytes_written := bytes_written s + int (length out)\<rparr>)"
      using gz_priv_out[of s hist w data out] Suc.prems(2,5) ZOut m by simp
    show ?thesis
    proof (cases "length ?tail > 0")
      case False
      then have "outs = [out]" "hf = ?h"
        using Suc.prems(1) ZOut by simp_all
      moreover have "sd_write_gz_loop w start (Some data) s
          = Some (Returned m, z_wrote s ?h [out] 0 PyNone)"
        apply (subst sd_write_gz_loop.simps)
        using priv False Suc.prems(4) by (simp add: z_step_states(1))
      ultimately show ?thesis by blast
    next
      case True
      then obtain rest where rest: "z_frag w m n ?h ?tail = Some (rest, hf)" and o: "outs = out # rest"
        using Suc.prems(1) ZOut by (auto split: option.splits)
      let ?s2 = "z_wrote s ?h [out] 1 PyNone"
      show ?thesis
      proof (cases "monotonic w (ticks s) - start \<ge> fbintvl s")
        case box: True
        have "sd_write_gz_loop w start (Some data) s
            = Some (Returned 0, z_wrote s ?h [out] 1 (Bytes ?tail))"
          apply (subst sd_write_gz_loop.simps)
          using priv True box
          by (simp add: Let_def dec_hist_def z_step_states(1) z_wrote_tick z_wrote_fields(1,4))
        moreover have "n < Suc n \<and> z_frag w m n ?h ?tail = Some (rest, hf) \<and> outs = [out] @ rest"
          using rest o by simp
        ultimately show ?thesis by blast
      next
        case nobox: False
        have cont: "sd_write_gz_loop w start (Some data) s
            = sd_write_gz_loop w start (Some ?tail) ?s2"
          apply (subst sd_write_gz_loop.simps)
          using priv True nobox
          by (simp add: Let_def dec_hist_def z_step_states(1) z_wrote_tick z_wrote_fields(1,4))
        have "zdec ?s2 = Some ?h" "blksz ?s2 = m"
          using m by (simp_all add: z_wrote_fields)
        from Suc.IH[OF rest this Suc.prems(4,5)] obtain j st outs_a hist' zd where
          r: "sd_write_gz_loop w start (Some ?tail) ?s2
                = Some (Returned st, z_wrote ?s2 hist' outs_a j zd)"
          and d: "(st = m \<and> outs_a = rest \<and> hist' = hf)
            \<or> (st = 0 \<and> (\<exists>n' outs_b tail. zd = Bytes tail \<and> n' < n
                       \<and> z_frag w m n' hist' tail = Some (outs_b, hf) \<and> rest = outs_a @ outs_b))"
          by blast
        have "sd_write_gz_loop w start (Some data) s
                = Some (Returned st, z_wrote s hist' (out # outs_a) (1 + j) zd)"
          using cont r by (simp add: z_wrote_z_wrote)
        moreover have "(st = m \<and> out # outs_a = outs \<and> hist' = hf)
            \<or> (st = 0 \<and> (\<exists>n' outs_b tail. zd = Bytes tail \<and> n' < Suc n
                       \<and> z_frag w m n' hist' tail = Some (outs_b, hf)
                       \<and> outs = (out # outs_a) @ outs_b))"
          using d o less_SucI by auto
        ultimately show ?thesis by blast
      qed
    qed
  qed
qed


lemma gz_send_frag:
  assumes "z_frag w m n hist eff = Some (outs, hf)"
    and "sdmux_controller s" and "blksz s = m" and "m \<noteq> 0"
    and "expiry_ok session s" and "dec_hist (zdec s) = hist" and "accepts_writes w"
    and "(data \<noteq> [] \<and> eff = data) \<or> (data = [] \<and> zdata s = Bytes eff)"
  shows "\<exists>k s'. gz_send k w data session s = Some (Returned m, s')
          \<and> sdmux_controller s' \<and> blksz s' = m \<and> expiry_ok session s' \<and> zdec s' = Some hf
          \<and> sink (trace s') = sink (trace s) @ outs
          \<and> bytes_written s' = bytes_written s + int (length (concat outs))"
  using assms
proof (induction n arbitrary: hist data eff s outs rule: less_induct)
  case (less n)
  from check_expired_ok[OF less.prems(5)] obtain s1 where
    c: "check_expired w session s = (Returned (), s1)" and ok1: "expiry_ok session s1"
    and f1: "s1 = s\<lparr>ticks := ticks s1, lock_owner := lock_owner s1, lock_expiry := lock_expiry s1\<rparr>"
    by blast
  define s2 where "s2 = (if zdec s1 = None then s1\<lparr>zdec := Some []\<rparr> else s1)"
  define s3 where "s3 = s2\<lparr>ticks := Suc (ticks s2)\<rparr>"
  have s1f: "sdmux_controller s1" "blksz s1 = m" "trace s1 = trace s"
    "bytes_written s1 = bytes_written s" "dec_hist (zdec s1) = hist" "zdata s1 = zdata s"
    using less.prems(2,3,6) by (subst f1, simp)+
  have s3f: "zdec s3 = Some hist" "blksz s3 = m" "sdmux_controller s3" "trace s3 = trace s"
    "bytes_written s3 = bytes_written s" "expiry_ok session s3"
    using s1f ok1 unfolding s3_def s2_def
    by (auto simp add: dec_hist_def expiry_ok_def split: option.splits)
  have z2: "zdata s2 = zdata s"
    using s1f(6) unfolding s2_def by simp
  have call: "sd_write_gz w data session s
                = sd_write_gz_loop w (monotonic w (ticks s2)) (Some eff) s3"
    using c s1f(1) less.prems(8) z2 unfolding s3_def s2_def
    by (auto simp add: sd_write_gz_def Let_def)
  from gz_loop_frag[OF less.prems(1) s3f(1,2) less.prems(4,7), of "monotonic w (ticks s2)"]
  obtain j st outs_a hist' zd where
    r: "sd_write_gz_loop w (monotonic w (ticks s2)) (Some eff) s3
          = Some (Returned st, z_wrote s3 hist' outs_a j zd)"
    and d: "(st = m \<and> outs_a = outs \<and> hist' = hf)
            \<or> (st = 0 \<and> (\<exists>n' outs_b tail. zd = Bytes tail \<and> n' < n
                       \<and> z_frag w m n' hist' tail = Some (outs_b, hf) \<and> outs = outs_a @ outs_b))"
    by blast
  let ?t = "z_wrote s3 hist' outs_a j zd"
  have tf: "sdmux_controller ?t" "blksz ?t = m" "expiry_ok session ?t" "zdec ?t = Some hist'"
    "sink (trace ?t) = sink (trace s) @ outs_a"
    "bytes_written ?t = bytes_written s + int (length (concat outs_a))"
    using s3f by (simp_all add: z_wrote_fields expiry_ok_z_wrote sink_append sink_writes)
  from d show ?case
  proof
    assume fin: "st = m \<and> outs_a = outs \<and> hist' = hf"
    then have "gz_send (Suc 0) w data session s = Some (Returned m, ?t)"
      using call r less.prems(4) by simp
    with tf fin show ?thesis by blast
  next
    assume "st = 0 \<and> (\<exists>n' outs_b tail. zd = Bytes tail \<and> n' < n
                       \<and> z_frag w m n' hist' tail = Some (outs_b, hf) \<and> outs = outs_a @ outs_b)"
    then obtain n' outs_b tail where st: "st = 0" and zd: "zd = Bytes tail" and n': "n' < n"
      and fr: "z_frag w m n' hist' tail = Some (outs_b, hf)" and o: "outs = outs_a @ outs_b"
      by blast
    have dh: "dec_hist (zdec ?t) = hist'"
      by (simp add: z_wrote_fields dec_hist_def)
    have src: "([] \<noteq> [] \<and> tail = []) \<or> ([] = [] \<and> zdata ?t = Bytes tail)"
      using zd by (simp add: z_wrote_fields)
    from less.IH[OF n' fr tf(1,2) less.prems(4) tf(3) dh less.prems(7) src] obtain k s' where
      k: "gz_send k w [] session ?t = Some (Returned m, s')"
      and s': "sdmux_controller s'" "blksz s' = m" "expiry_ok session s'" "zdec s' = Some hf"
        "sink (trace s') = sink (trace ?t) @ outs_b"
        "bytes_written s' = bytes_written ?t + int (length (concat outs_b))"
      by blast
    have "gz_send (Suc k) w data session s = Some (Returned m, s')"
      using call r st k by simp
    moreover have "sink (trace s') = sink (trace s) @ outs"
      "bytes_written s' = bytes_written s + int (length (concat outs))"
      using s' tf o by simp_all
    ultimately show ?thesis using s' by blast
  qed
qed

lemma gz_send_more:
  "gz_send k w data session s = Some r \<Longrightarrow> gz_send (k + j) w data session s = Some r"
proof (induction k arbitrary: data s)
  case 0
  then show ?case by simp
next
  case (Suc k)
  show ?case
  proof (cases "sd_write_gz w data session s")
    case None
    with Suc.prems show ?thesis by simp
  next
    case (Some a)
    obtain o1 s1 where a: "a = (o1, s1)" by (cases a)
    show ?thesis
    proof (cases o1)
      case (Returned status)
      show ?thesis
      proof (cases "status = 0")
        case True
        with Suc.prems Some a Returned have "gz_send k w [] session s1 = Some r" by simp
        from Suc.IH[OF this] show ?thesis using Some a Returned True by simp
      next
        case False
        with Suc.prems Some a Returned show ?thesis by auto
      qed
    next
      case (Raised e)
      with Suc.prems Some a show ?thesis by auto
    qed
  qed
qed

lemma gz_drive_more:
  "gz_drive k w frags session s = Some (Returned True, s') \<Longrightarrow>
   gz_drive (k + j) w frags session s = Some (Returned True, s')"
proof (induction frags arbitrary: s)
  case Nil
  then show ?case by simp
next
  case (Cons f fs)
  from Cons.prems obtain status s1 where
    snd1: "gz_send k w f session s = Some (Returned status, s1)" and pos: "\<not> status < 0"
    and rest: "gz_drive k w fs session s1 = Some (Returned True, s')"
    by (auto split: option.splits outcome.splits if_splits)
  from gz_send_more[OF snd1, of j] Cons.IH[OF rest] pos show ?case by simp
qed

lemma gz_drive_feed:
  assumes "z_feed w m n hist frags = Some (outs, hf)" and "\<forall>f\<in>set frags. f \<noteq> []"
    and "sdmux_controller s" and "blksz s = m" and "0 < m"
    and "expiry_ok session s" and "dec_hist (zdec s) = hist" and "accepts_writes w"
  shows "\<exists>k s'. gz_drive k w frags session s = Some (Returned True, s')
          \<and> sdmux_controller s' \<and> blksz s' = m \<and> expiry_ok session s'
          \<and> dec_hist (zdec s') = hf
          \<and> sink (trace s') = sink (trace s) @ outs
          \<and> bytes_written s' = bytes_written s + int (length (concat outs))"
  using assms
proof (induction frags arbitrary: hist s outs)
  case Nil
  then show ?case by simp
next
  case (Cons f fs)
  from Cons.prems(1) obtain o1 h1 o2 where
    f1: "z_frag w m n hist f = Some (o1, h1)" and f2: "z_feed w m n h1 fs = Some (o2, hf)"
    and o: "outs = o1 @ o2"
    by (auto split: option.splits)
  have m0: "m \<noteq> 0" using Cons.prems(5) by simp
  have ne: "(f \<noteq> [] \<and> f = f) \<or> (f = [] \<and> zdata s = Bytes f)"
    and rest_ne: "\<forall>f\<in>set fs. f \<noteq> []"
    using Cons.prems(2) by simp_all
  from gz_send_frag[OF f1 Cons.prems(3,4) m0 Cons.prems(6,7,8) ne] obtain k1 s1 where
    k1: "gz_send k1 w f session s = Some (Returned m, s1)"
    and s1: "sdmux_controller s1" "blksz s1 = m" "expiry_ok session s1" "zdec s1 = Some h1"
      "sink (trace s1) = sink (trace s) @ o1"
      "bytes_written s1 = bytes_written s + int (length (concat o1))"
    by blast
  have dh: "dec_hist (zdec s1) = h1" using s1(4) by (simp add: dec_hist_def)
  from Cons.IH[OF f2 rest_ne s1(1,2) Cons.prems(5) s1(3) dh Cons.prems(8)] obtain k2 s' where
    k2: "gz_drive k2 w fs session s1 = Some (Returned True, s')"
    and s': "sdmux_controller s'" "blksz s' = m" "expiry_ok session s'"
      "dec_hist (zdec s') = hf" "sink (trace s') = sink (trace s1) @ o2"
      "bytes_written s' = bytes_written s1 + int (length (concat o2))"
    by blast
  have a: "gz_send (k1 + k2) w f session s = Some (Returned m, s1)"
    using gz_send_more[OF k1] .
  have b: "gz_drive (k1 + k2) w fs session s1 = Some (Returned True, s')"
    using gz_drive_more[OF k2, of k1] by (simp add: add.commute)
  have "gz_drive (k1 + k2) w (f # fs) session s = Some (Returned True, s')"
    using a b Cons.prems(5) by simp
  moreover have "sink (trace s') = sink (trace s) @ outs"
    "bytes_written s' = bytes_written s + int (length (concat outs))"
    using s' s1 o by simp_all
  ultimately show ?case using s' by blast
qed

subsection \<open>The streaming round trip\<close>

text \<open>
  C6, as the code has it: for the caller that answers a status of 0 with an
  empty buffer and sends the next fragment after a positive status only. Take
  an agent with an SD-mux driver that accepts the writes and a new
  decompressor, a session whose expiry processing returns, and any clock. Let
  \<open>frags\<close> be any list of fragments for which the decompressor, used on its
  own, delivers the outputs \<open>outs\<close> with bytes \<open>x\<close> (for gzip the fragments are
  not empty: an empty buffer is the caller's request to go on). Then that
  caller, sending the fragments to \<^verbatim>\<open>sd_write_gz\<close> (to \<^verbatim>\<open>sd_write_bz2\<close>), gets
  through all of them in finitely many calls, none raising or returning an
  error; the driver has then been given exactly the bytes \<open>x\<close>, in order, after
  what it had before, and the counter of bytes written has advanced by the
  length of \<open>x\<close>, so it is that length when the transfer began at 0, as after
  \<^verbatim>\<open>sd_open\<close>. The fragments are arbitrary: one byte each, or one fragment for
  the whole input. That a decompressor delivers the same bytes for every
  partition of one input is a property of the library, which the statement
  neither uses nor shows.
\<close>

theorem streaming_round_trip:
  assumes "sdmux_controller s" and "0 < blksz s" and "expiry_ok session s"
    and "accepts_writes w"
  shows "(z_feed w (blksz s) n [] frags = Some (outs, hf) \<and> concat outs = x
            \<and> (\<forall>f\<in>set frags. f \<noteq> []) \<and> dec_hist (zdec s) = [] \<longrightarrow>
          (\<exists>k s'. gz_drive k w frags session s = Some (Returned True, s')
             \<and> concat (sink (trace s')) = concat (sink (trace s)) @ x
             \<and> bytes_written s' = bytes_written s + int (length x)))
       \<and> (bz2_feed w (blksz s) n [] frags = Some (outs, hf) \<and> concat outs = x
            \<and> dec_hist (bz2dec s) = [] \<longrightarrow>
          (\<exists>k s'. bz2_drive k w frags session s = Some (Returned True, s')
             \<and> concat (sink (trace s')) = concat (sink (trace s)) @ x
             \<and> bytes_written s' = bytes_written s + int (length x)))"
proof (intro conjI impI)
  assume h: "z_feed w (blksz s) n [] frags = Some (outs, hf) \<and> concat outs = x
            \<and> (\<forall>f\<in>set frags. f \<noteq> []) \<and> dec_hist (zdec s) = []"
  then have f: "z_feed w (blksz s) n [] frags = Some (outs, hf)"
    and ne: "\<forall>f\<in>set frags. f \<noteq> []" and d: "dec_hist (zdec s) = []" and x: "concat outs = x"
    by simp_all
  from gz_drive_feed[OF f ne assms(1) refl assms(2,3) d assms(4)] obtain k s' where
    r: "gz_drive k w frags session s = Some (Returned True, s')"
    and t: "sink (trace s') = sink (trace s) @ outs"
    and c: "bytes_written s' = bytes_written s + int (length (concat outs))"
    by blast
  have "concat (sink (trace s')) = concat (sink (trace s)) @ x"
    using t x by simp
  moreover have "bytes_written s' = bytes_written s + int (length x)"
    using c x by simp
  ultimately show "\<exists>k s'. gz_drive k w frags session s = Some (Returned True, s')
             \<and> concat (sink (trace s')) = concat (sink (trace s)) @ x
             \<and> bytes_written s' = bytes_written s + int (length x)"
    using r by blast
next
  assume h: "bz2_feed w (blksz s) n [] frags = Some (outs, hf) \<and> concat outs = x
            \<and> dec_hist (bz2dec s) = []"
  then have f: "bz2_feed w (blksz s) n [] frags = Some (outs, hf)"
    and d: "dec_hist (bz2dec s) = []" and x: "concat outs = x"
    by simp_all
  from bz2_drive_feed[OF f assms(1) refl assms(2,3) d assms(4)] obtain k s' where
    r: "bz2_drive k w frags session s = Some (Returned True, s')"
    and t: "sink (trace s') = sink (trace s) @ outs"
    and c: "bytes_written s' = bytes_written s + int (length (concat outs))"
    by blast
  have "concat (sink (trace s')) = concat (sink (trace s)) @ x"
    using t x by simp
  moreover have "bytes_written s' = bytes_written s + int (length x)"
    using c x by simp
  ultimately show "\<exists>k s'. bz2_drive k w frags session s = Some (Returned True, s')
             \<and> concat (sink (trace s')) = concat (sink (trace s)) @ x
             \<and> bytes_written s' = bytes_written s + int (length x)"
    using r by blast
qed

text \<open>
  The statement in the example environment, with blocks of two bytes and a
  clock that cuts the first call short: the stream \<^verbatim>\<open>abcde.\<close> sent as \<^verbatim>\<open>abc\<close> and
  \<^verbatim>\<open>de.\<close> arrives as \<^verbatim>\<open>abcde\<close> through either pipeline, and the counter ends at 5.
\<close>

theorem streaming_round_trip_witness:
  "expiry_ok None small_blocks \<and> accepts_writes (demo_world (readings [0, 0, 9]))
   \<and> z_feed (demo_world (readings [0, 0, 9])) 2 2 [] [''abc'', ''de.'']
       = Some ([''ab'', ''c'', ''de''], [(''abc'', 2), (''c'', 2), (''de.'', 2)])
   \<and> (\<exists>k s'. gz_drive k (demo_world (readings [0, 0, 9])) [''abc'', ''de.''] None small_blocks
                 = Some (Returned True, s')
         \<and> concat (sink (trace s')) = ''abcde'' \<and> bytes_written s' = 5)
   \<and> bz2_feed (demo_world (readings [0, 0, 9])) 2 3 [] [''abc'', ''de.'']
       = Some ([''ab'', ''c'', ''de'', []], [([], 2)])
   \<and> (\<exists>k s'. bz2_drive k (demo_world (readings [0, 0, 9])) [''abc'', ''de.''] None small_blocks
                 = Some (Returned True, s')
         \<and> concat (sink (trace s')) = ''abcde'' \<and> bytes_written s' = 5)"
proof -
  let ?w = "demo_world (readings [0, 0, 9])"
  have b: "blksz small_blocks = 2" "sdmux_controller small_blocks" "0 < blksz small_blocks"
    "dec_hist (bz2dec small_blocks) = []" "dec_hist (zdec small_blocks) = []"
    "trace small_blocks = []" "bytes_written small_blocks = 0"
    by (simp_all add: small_blocks_def init_def dec_hist_def)
  have e: "expiry_ok None small_blocks"
    by (simp add: expiry_ok_def truthy_def small_blocks_def init_def)
  have a: "accepts_writes ?w"
    by (simp add: accepts_writes_def demo_simps)
  have z: "z_feed ?w (blksz small_blocks) 2 [] [''abc'', ''de.'']
       = Some ([''ab'', ''c'', ''de''], [(''abc'', 2), (''c'', 2), (''de.'', 2)])"
    by (simp add: b numeral_2_eq_2 demo_simps toy_z_decompress_def toy_z_state_def
        toy_z_next_def payload_def Let_def)
  have bz: "bz2_feed ?w (blksz small_blocks) 3 [] [''abc'', ''de.'']
       = Some ([''ab'', ''c'', ''de'', []], [([], 2)])"
    by (simp add: b numeral_3_eq_3 demo_simps toy_bz2_decompress_def toy_bz2_state_def
        toy_bz2_next_def payload_def Let_def)
  note th = streaming_round_trip[OF b(2,3) e a]
  have 1: "\<exists>k s'. gz_drive k ?w [''abc'', ''de.''] None small_blocks = Some (Returned True, s')
         \<and> concat (sink (trace s')) = ''abcde'' \<and> bytes_written s' = 5"
    using th[where n = 2 and frags = "[''abc'', ''de.'']" and outs = "[''ab'', ''c'', ''de'']"
        and x = "''abcde''"] z
    by (simp add: b)
  have 2: "\<exists>k s'. bz2_drive k ?w [''abc'', ''de.''] None small_blocks = Some (Returned True, s')
         \<and> concat (sink (trace s')) = ''abcde'' \<and> bytes_written s' = 5"
    using th[where n = 3 and frags = "[''abc'', ''de.'']" and outs = "[''ab'', ''c'', ''de'', []]"
        and x = "''abcde''"] bz
    by (simp add: b)
  from e a z bz 1 2 show ?thesis by (simp add: b)
qed

text \<open>
  C6 as stated fails for the caller that sends the next fragment after a
  status of 0. The clock reads 0 and then 9, so the first call returns after
  one block, with status 0, when the feedback interval of 8 has passed.
  \<^verbatim>\<open>sd_write_gz\<close> has then kept the unconsumed \<^verbatim>\<open>cd\<close> in \<^verbatim>\<open>self.zdata\<close>, which it
  reads for an empty buffer only and clears in the next call: of the stream
  \<^verbatim>\<open>abcdef.\<close> sent as \<^verbatim>\<open>abcd\<close> and \<^verbatim>\<open>ef.\<close> the driver is given \<^verbatim>\<open>ab\<close> and \<^verbatim>\<open>ef\<close>, and
  the counter ends at 4, where the decompressor on its own delivers \<^verbatim>\<open>ab\<close>,
  \<^verbatim>\<open>cd\<close>, \<^verbatim>\<open>ef\<close>. \<^verbatim>\<open>sd_write_bz2\<close> returns 0 at the end of the stream \<^verbatim>\<open>ab.\<close>; the
  fragment \<^verbatim>\<open>cd.\<close> sent next meets \<^verbatim>\<open>EOFError\<close>, and the handler goes on with the
  empty \<^verbatim>\<open>unused_data\<close> in its place: the driver is given \<^verbatim>\<open>ab\<close> only, and the
  counter ends at 2. No call raises or returns an error.
\<close>

theorem next_fragment_after_status_zero_loses_data:
  "expiry_ok None small_blocks \<and> accepts_writes (demo_world (readings [0, 9]))
   \<and> z_feed (demo_world (readings [0, 9])) 2 3 [] [''abcd'', ''ef.'']
       = Some ([''ab'', ''cd'', ''ef''], [(''abcd'', 2), (''cd'', 2), (''ef.'', 2)])
   \<and> delivered (gz_drive_next 1 (demo_world (readings [0, 9])) [''abcd'', ''ef.''] None
         small_blocks)
       = Some (Returned True, [''ab'', ''ef''], 4)
   \<and> bz2_feed (demo_world (readings [0, 9])) 2 3 [] [''ab.'', ''cd.'']
       = Some ([''ab'', [], ''cd'', []], [([], 2)])
   \<and> delivered (bz2_drive_next 2 (demo_world (readings [0, 9])) [''ab.'', ''cd.''] None
         small_blocks)
       = Some (Returned True, [''ab'', []], 2)"
proof -
  let ?w = "demo_world (readings [0, 9])"
  note toy = toy_z_decompress_def toy_z_state_def toy_z_next_def payload_def
    toy_bz2_decompress_def toy_bz2_state_def toy_bz2_next_def call_bool_def Let_def
    dec_hist_def demo_simps readings_def
  have e: "expiry_ok None small_blocks"
    by (simp add: expiry_ok_def truthy_def small_blocks_def init_def)
  have a: "accepts_writes ?w"
    by (simp add: accepts_writes_def demo_simps)
  have z: "z_feed ?w 2 3 [] [''abcd'', ''ef.'']
       = Some ([''ab'', ''cd'', ''ef''], [(''abcd'', 2), (''cd'', 2), (''ef.'', 2)])"
    by (simp add: numeral_3_eq_3 toy)
  have bz: "bz2_feed ?w 2 3 [] [''ab.'', ''cd.''] = Some ([''ab'', [], ''cd'', []], [([], 2)])"
    by (simp add: numeral_3_eq_3 toy)
  have g: "delivered (gz_drive_next 1 ?w [''abcd'', ''ef.''] None small_blocks)
       = Some (Returned True, [''ab'', ''ef''], 4)"
    apply (simp add: delivered_def sd_write_gz_def check_expired_def truthy_def small_blocks_def
        init_def toy)
    apply (subst sd_write_gz_loop.simps)
    apply (simp add: sd_write_gz_priv_def toy)
    apply (simp add: sd_write_gz_def check_expired_def truthy_def toy)
    apply (subst sd_write_gz_loop.simps)
    apply (simp add: sd_write_gz_priv_def toy)
    done
  have b: "delivered (bz2_drive_next 2 ?w [''ab.'', ''cd.''] None small_blocks)
       = Some (Returned True, [''ab'', []], 2)"
    apply (simp add: delivered_def sd_write_bz2_def check_expired_def truthy_def small_blocks_def
        init_def toy)
    apply (subst sd_write_bz2_loop.simps)
    apply (simp add: sd_write_bz2_priv_def toy)
    apply (simp add: numeral_2_eq_2 sd_write_bz2_def check_expired_def truthy_def toy)
    apply (subst sd_write_bz2_loop.simps)
    apply (simp add: sd_write_bz2_priv_def toy)
    apply (simp add: sd_write_bz2_def check_expired_def truthy_def toy)
    apply (subst sd_write_bz2_loop.simps)
    apply (simp add: sd_write_bz2_priv_def toy)
    done
  from e a z bz g b show ?thesis by blast
qed

subsection \<open>When the SD card may be swapped\<close>

text \<open>
  What holds of \<^verbatim>\<open>sd_locked\<close> and the two swaps in every state. Expiry
  processing either returns or raises \<^verbatim>\<open>TypeError\<close>, and touches the lease only.
  While the swap is blocked neither \<^verbatim>\<open>sd_to_host\<close> nor \<^verbatim>\<open>sd_to_target\<close> reaches the
  driver's \<^verbatim>\<open>to_host\<close> or \<^verbatim>\<open>to_target\<close>, whether the call returns or raises; and
  where expiry processing returns, \<^verbatim>\<open>sd_locked\<close> returns, true exactly when the
  caller is locked out by the lease or the swap is blocked.
\<close>

lemma check_expired_cases:
  obtains s1 where "check_expired w session s = (Returned (), s1)"
      "s1 = s\<lparr>ticks := ticks s1, lock_owner := lock_owner s1, lock_expiry := lock_expiry s1\<rparr>"
  | s1 where "check_expired w session s = (Raised TypeError, s1)"
      "s1 = s\<lparr>ticks := ticks s1, lock_owner := lock_owner s1, lock_expiry := lock_expiry s1\<rparr>"
proof -
  obtain r s1 where c: "check_expired w session s = (r, s1)"
    by (cases "check_expired w session s")
  have "r = Returned () \<or> r = Raised TypeError"
    using c by (auto simp add: check_expired_def Let_def split: if_splits option.splits)
  with c check_expired_frame[OF c] that show ?thesis by blast
qed

lemma target_status_trace:
  "swaps (trace (snd (target_status w session s))) = swaps (trace s)
   \<and> sd_opened (snd (target_status w session s)) = sd_opened s
   \<and> sdmux_controller (snd (target_status w session s)) = sdmux_controller s"
proof (cases rule: check_expired_cases[of w session s])
  case (1 s1)
  have "trace s1 = trace s" "sd_opened s1 = sd_opened s" "sdmux_controller s1 = sdmux_controller s"
    by (subst 1(2), simp)+
  then show ?thesis using 1(1)
    by (simp add: target_status_def bnd_Returned call_str_def swaps_def)
next
  case (2 s1)
  have "trace s1 = trace s" "sd_opened s1 = sd_opened s" "sdmux_controller s1 = sdmux_controller s"
    by (subst 2(2), simp)+
  then show ?thesis using 2(1)
    by (simp add: target_status_def bnd_Raised)
qed


lemma target_status_value:
  assumes "power_controller s" and "target_status w session s = (Returned v, s')"
  shows "v = drv_str w (trace s) PowerStatus"
proof (cases rule: check_expired_cases[of w session s])
  case (1 s1)
  have "trace s1 = trace s" "power_controller s1 = power_controller s"
    by (subst 1(2), simp)+
  then show ?thesis using 1(1) assms
    by (auto simp add: target_status_def bnd_Returned call_str_def)
next
  case (2 s1)
  then show ?thesis using assms by (simp add: target_status_def bnd_Raised)
qed

lemma sd_locked_blocked:
  "swaps (trace (snd (sd_locked w session s))) = swaps (trace s)
   \<and> (blocked w s \<longrightarrow> fst (sd_locked w session s) \<noteq> Returned False)"
proof (cases rule: check_expired_cases[of w session s])
  case (2 s1)
  have "trace s1 = trace s" by (subst 2(2), simp)
  then show ?thesis using 2(1) by (simp add: sd_locked_def bnd_Raised)
next
  case (1 s1)
  have f: "trace s1 = trace s" "sd_opened s1 = sd_opened s"
    "sdmux_controller s1 = sdmux_controller s" "power_controller s1 = power_controller s"
    by (subst 1(2), simp)+
  obtain r s2 where ts: "target_status w None s1 = (r, s2)"
    by (cases "target_status w None s1")
  have t2: "swaps (trace s2) = swaps (trace s)" "sd_opened s2 = sd_opened s"
    using target_status_trace[of w None s1] ts f by simp_all
  show ?thesis
  proof (cases r)
    case (Raised e)
    then show ?thesis using 1(1) ts f t2
      by (simp add: sd_locked_def bnd_Returned bnd_Raised)
  next
    case (Returned v)
    have "power_controller s \<Longrightarrow> v = drv_str w (trace s) PowerStatus"
      using target_status_value[of s1 w None v s2] ts Returned f by simp
    then show ?thesis using 1(1) ts f t2 Returned
      by (auto simp add: sd_locked_def bnd_Returned blocked_def)
  qed
qed

lemma sd_close_swaps:
  "swaps (trace (snd (sd_close w session s))) = swaps (trace s)"
proof (cases rule: check_expired_cases[of w session s])
  case (1 s1)
  have "trace s1 = trace s" by (subst 1(2), simp)
  then show ?thesis using 1(1)
    by (simp add: sd_close_def bnd_Returned call_bool_def swaps_def Let_def)
next
  case (2 s1)
  have "trace s1 = trace s" by (subst 2(2), simp)
  then show ?thesis using 2(1) by (simp add: sd_close_def bnd_Raised)
qed

lemma mux_legality:
  assumes "blocked w s"
  shows "swaps (trace (snd (sd_to_host w session s))) = swaps (trace s)"
    and "swaps (trace (snd (sd_to_target w session s))) = swaps (trace s)"
proof -
  show "swaps (trace (snd (sd_to_host w session s))) = swaps (trace s)"
  proof (cases rule: check_expired_cases[of w session s])
    case (2 s1)
    have "trace s1 = trace s" by (subst 2(2), simp)
    then show ?thesis using 2(1) by (simp add: sd_to_host_def bnd_Raised)
  next
    case (1 s1)
    have f: "trace s1 = trace s" "blocked w s1 = blocked w s"
      by (subst 1(2), simp add: blocked_def)+
    obtain r s2 where l: "sd_locked w session s1 = (r, s2)"
      by (cases "sd_locked w session s1")
    have "swaps (trace s2) = swaps (trace s)" "r \<noteq> Returned False"
      using sd_locked_blocked[of w session s1] l f assms by simp_all
    then show ?thesis using 1(1) l
      by (cases r) (auto simp add: sd_to_host_def bnd_Returned bnd_Raised)
  qed
  show "swaps (trace (snd (sd_to_target w session s))) = swaps (trace s)"
  proof (cases rule: check_expired_cases[of w session s])
    case (2 s1)
    have "trace s1 = trace s" by (subst 2(2), simp)
    then show ?thesis using 2(1) by (simp add: sd_to_target_def bnd_Raised)
  next
    case (1 s1)
    have f: "trace s1 = trace s" "blocked w s1 = blocked w s"
      by (subst 1(2), simp add: blocked_def)+
    obtain r s2 where l: "sd_locked w session s1 = (r, s2)"
      by (cases "sd_locked w session s1")
    have "swaps (trace s2) = swaps (trace s)" "r \<noteq> Returned False"
      using sd_locked_blocked[of w session s1] l f assms by simp_all
    then show ?thesis using 1(1) l
      by (cases r) (auto simp add: sd_to_target_def bnd_Returned bnd_Raised)
  qed
qed

lemma check_expired_unlocked_again:
  assumes "check_expired w session s = (Returned (), s1)" and "\<not> check_locked session s1"
  shows "fst (check_expired w None s1) = Returned ()"
  using assms
  by (auto simp add: check_expired_def check_locked_def target_owner_def truthy_def Let_def
      split: if_splits option.splits)

lemma sd_locked_disjunction:
  assumes "check_expired w session s = (Returned (), s1)"
  shows "fst (sd_locked w session s)
           = Returned (if check_locked session s1 then True else blocked w s)"
proof -
  note fr = check_expired_frame[OF assms]
  have f: "trace s1 = trace s" "sd_opened s1 = sd_opened s"
    "sdmux_controller s1 = sdmux_controller s" "power_controller s1 = power_controller s"
    by (subst fr, simp)+
  show ?thesis
  proof (cases "check_locked session s1")
    case True
    then show ?thesis using assms by (simp add: sd_locked_def bnd_Returned)
  next
    case False
    have "fst (check_expired w None s1) = Returned ()"
      using check_expired_unlocked_again[OF assms False] .
    then obtain s2 where c2: "check_expired w None s1 = (Returned (), s2)"
      by (cases "check_expired w None s1") simp
    note fr2 = check_expired_frame[OF c2]
    have f2: "trace s2 = trace s" "sd_opened s2 = sd_opened s"
      "power_controller s2 = power_controller s"
      using f by (subst fr2, simp)+
    show ?thesis using assms False f c2 f2
      by (simp add: sd_locked_def target_status_def bnd_Returned call_str_def blocked_def)
  qed
qed

subsection \<open>The mounted flag\<close>

text \<open>
  \<^verbatim>\<open>_sd_mounted\<close> is assigned in \<^verbatim>\<open>__init__\<close> and in \<^verbatim>\<open>sd_mount\<close> only. Every other
  operation leaves it as it was, \<^verbatim>\<open>sd_mount\<close> leaves it set once it is set, and so
  no sequence of operations clears it. From then on \<^verbatim>\<open>sd_mount\<close> returns true
  without a call to the switch.
\<close>

lemma mounted_bnd:
  assumes "sd_mounted (snd m) = b"
    and "\<And>v s1. sd_mounted s1 = b \<Longrightarrow> sd_mounted (snd (f v s1)) = b"
  shows "sd_mounted (snd (bnd m f)) = b"
  using assms by (cases m) (auto simp add: bnd_def split: outcome.splits)

lemma mounted_check_expired:
  "sd_mounted (snd (check_expired w session s)) = sd_mounted s"
  by (auto simp add: check_expired_def Let_def split: option.splits)

lemma mounted_calls:
  "sd_mounted (snd (call_bool w c s)) = sd_mounted s"
  "sd_mounted (snd (call_str w c s)) = sd_mounted s"
  "sd_mounted (snd (call_int w c s)) = sd_mounted s"
  "sd_mounted (snd (call_log w l s)) = sd_mounted s"
  by (simp_all add: call_bool_def call_str_def call_int_def call_log_def)

lemma mounted_lease:
  "sd_mounted (snd (target_lock w session s)) = sd_mounted s"
  "sd_mounted (snd (target_locked w session s)) = sd_mounted s"
  "sd_mounted (snd (target_unlock w session s)) = sd_mounted s"
  "sd_mounted (snd (console_locked w session s)) = sd_mounted s"
  "sd_mounted (snd (power_locked w session s)) = sd_mounted s"
  "sd_mounted (snd (target_status w session s)) = sd_mounted s"
  unfolding target_lock_def target_locked_def target_unlock_def console_locked_def
    power_locked_def target_status_def
  by (rule mounted_bnd, simp add: mounted_check_expired, simp add: call_str_def)+


lemma mounted_console:
  "sd_mounted (snd (console_open w c session s)) = sd_mounted s"
  "sd_mounted (snd (console_gated w c session s)) = sd_mounted s"
  "sd_mounted (snd (toggle_timestamps w s)) = sd_mounted s"
proof -
  show "sd_mounted (snd (console_open w c session s)) = sd_mounted s"
    unfolding console_open_def
    by (rule mounted_bnd) (simp_all add: mounted_check_expired call_log_def)
  show "sd_mounted (snd (console_gated w c session s)) = sd_mounted s"
    unfolding console_gated_def
    by (rule mounted_bnd, simp add: mounted_check_expired, rule mounted_bnd)
      (simp_all add: mounted_lease call_log_def)
  show "sd_mounted (snd (toggle_timestamps w s)) = sd_mounted s"
    by (simp add: toggle_timestamps_def call_log_def)
qed

lemma mounted_power:
  "sd_mounted (snd (target_on w session s)) = sd_mounted s"
  "sd_mounted (snd (target_off w session s)) = sd_mounted s"
  "sd_mounted (snd (target_toggle w session s)) = sd_mounted s"
proof -
  show "sd_mounted (snd (target_on w session s)) = sd_mounted s"
    unfolding target_on_def Let_def
    by (rule mounted_bnd, simp add: mounted_check_expired call_log_def, rule mounted_bnd)
      (simp_all add: mounted_lease call_bool_def)
  show "sd_mounted (snd (target_off w session s)) = sd_mounted s"
    unfolding target_off_def
    by (rule mounted_bnd, simp add: mounted_check_expired, rule mounted_bnd)
      (simp_all add: mounted_lease call_bool_def call_log_def Let_def)
  show "sd_mounted (snd (target_toggle w session s)) = sd_mounted s"
    unfolding target_toggle_def
    by (rule mounted_bnd, simp add: mounted_check_expired, rule mounted_bnd)
      (simp_all add: mounted_lease call_str_def call_log_def Let_def)
qed

lemma mounted_sd:
  "sd_mounted (snd (sd_bytes_written w session s)) = sd_mounted s"
  "sd_mounted (snd (sd_close w session s)) = sd_mounted s"
  "sd_mounted (snd (sd_update w dst offset data session s)) = sd_mounted s"
  "sd_mounted (snd (sd_status w session s)) = sd_mounted s"
  "sd_mounted (snd (sd_write_raw w data session s)) = sd_mounted s"
  unfolding sd_bytes_written_def sd_close_def sd_update_def sd_status_def sd_write_raw_def
  by (rule mounted_bnd, simp add: mounted_check_expired,
      simp add: call_bool_def call_int_def call_str_def Let_def)+

lemma mounted_sd_locked:
  "sd_mounted (snd (sd_locked w session s)) = sd_mounted s"
  unfolding sd_locked_def
  apply (rule mounted_bnd, simp add: mounted_check_expired)
  apply (simp, intro conjI impI)
  apply (rule mounted_bnd, simp_all add: mounted_lease)
  done

lemma mounted_sd_open:
  "sd_mounted (snd (sd_open w session s)) = sd_mounted s"
  unfolding sd_open_def
  apply (rule mounted_bnd, simp add: mounted_check_expired)
  apply (simp, intro conjI impI)
  apply (rule mounted_bnd, simp_all add: mounted_sd call_bool_def)
  done

lemma mounted_swaps:
  "sd_mounted (snd (sd_to_host w session s)) = sd_mounted s"
  "sd_mounted (snd (sd_to_target w session s)) = sd_mounted s"
proof -
  show "sd_mounted (snd (sd_to_host w session s)) = sd_mounted s"
    unfolding sd_to_host_def
    by (rule mounted_bnd, simp add: mounted_check_expired, rule mounted_bnd)
      (simp_all add: mounted_sd_locked call_bool_def)
  show "sd_mounted (snd (sd_to_target w session s)) = sd_mounted s"
    unfolding sd_to_target_def
    apply (rule mounted_bnd, simp add: mounted_check_expired)
    apply (rule mounted_bnd, simp add: mounted_sd_locked)
    apply (simp, intro conjI impI)
    apply (rule mounted_bnd, simp_all add: mounted_sd call_bool_def)
    done
qed

lemma mounted_sd_toggle:
  "sd_mounted (snd (sd_toggle w session s)) = sd_mounted s"
  unfolding sd_toggle_def
  apply (rule mounted_bnd, simp add: mounted_check_expired)
  apply (rule mounted_bnd, simp add: mounted_sd_locked)
  apply (rule mounted_bnd)
   apply (simp, intro conjI impI)
   apply (rule mounted_bnd, simp_all add: mounted_sd call_bool_def)
  done

lemma mounted_usb:
  "sd_mounted (snd (usb_find_by_class w c session s)) = sd_mounted s"
  "sd_mounted (snd (usb_indexed w f ndx session s)) = sd_mounted s"
  "sd_mounted (snd (usb_ports w session s)) = sd_mounted s"
  "sd_mounted (snd (usb_status w ndx session s)) = sd_mounted s"
  unfolding usb_find_by_class_def usb_indexed_def usb_ports_def usb_status_def
  by (rule mounted_bnd, simp add: mounted_check_expired,
      simp add: call_bool_def call_int_def)+

lemma mounted_usb_class:
  "sd_mounted (snd (usb_has_class w c session s)) = sd_mounted s"
  "sd_mounted (snd (usb_by_class w f c session s)) = sd_mounted s"
  unfolding usb_has_class_def usb_by_class_def
  by (rule mounted_bnd, simp add: mounted_check_expired, rule mounted_bnd,
      simp add: mounted_usb, simp add: call_bool_def split: option.splits)+


lemma mounted_bz2_priv:
  "sd_mounted (snd (sd_write_bz2_priv w data s)) = sd_mounted s"
  by (simp add: sd_write_bz2_priv_def Let_def call_bool_def split: option.splits bz2_reply.splits)

lemma mounted_gz_priv:
  "sd_mounted (snd (sd_write_gz_priv w data s)) = sd_mounted s"
  by (simp add: sd_write_gz_priv_def Let_def call_bool_def split: option.splits z_reply.splits)

lemma mounted_bz2_loop:
  assumes "sd_write_bz2_loop w start data s = Some r"
  shows "sd_mounted (snd r) = sd_mounted s"
proof (rule sd_write_bz2_loop.raw_induct
    [where P = "\<lambda>_ _ _ s r. sd_mounted (snd r) = sd_mounted s", OF _ assms], goal_cases)
  case (1 loop w start data s r)
  obtain o1 s1 where p: "sd_write_bz2_priv w data s = (o1, s1)"
    by (cases "sd_write_bz2_priv w data s")
  have m1: "sd_mounted s1 = sd_mounted s"
    using mounted_bz2_priv[of w data s] p by simp
  show ?case
  proof (cases o1)
    case (Returned status)
    show ?thesis
    proof (cases "status \<noteq> 0 \<or> fbintvl s1 \<le> monotonic w (ticks s1) - start")
      case True
      then show ?thesis using 1(2) unfolding p Returned
        by (auto simp add: Let_def m1 split: if_splits)
    next
      case False
      then have "loop w start [] (s1\<lparr>ticks := Suc (ticks s1)\<rparr>) = Some r"
        using 1(2) p Returned by (simp add: Let_def)
      from 1(1)[OF this] show ?thesis using m1 by simp
    qed
  next
    case (Raised e)
    show ?thesis
    proof (cases "e = EOFError \<and> 0 < length (bz2_unused_data w (dec_hist (bz2dec s1)))")
      case True
      then have "loop w start (bz2_unused_data w (dec_hist (bz2dec s1)))
                   (s1\<lparr>bz2dec := Some []\<rparr>) = Some r"
        using 1(2) p Raised by (simp add: Let_def)
      from 1(1)[OF this] show ?thesis using m1 by simp
    next
      case False
      then show ?thesis using 1(2) unfolding p Raised
        by (auto simp add: Let_def m1 split: if_splits)
    qed
  qed
qed

lemma mounted_gz_loop:
  assumes "sd_write_gz_loop w start data s = Some r"
  shows "sd_mounted (snd r) = sd_mounted s"
proof (rule sd_write_gz_loop.raw_induct
    [where P = "\<lambda>_ _ _ s r. sd_mounted (snd r) = sd_mounted s", OF _ assms], goal_cases)
  case (1 loop w start data s r)
  obtain o1 s1 where p: "sd_write_gz_priv w data s = (o1, s1)"
    by (cases "sd_write_gz_priv w data s")
  have m1: "sd_mounted s1 = sd_mounted s"
    using mounted_gz_priv[of w data s] p by simp
  show ?case
  proof (cases o1)
    case (Returned status)
    show ?thesis
    proof (cases "status \<noteq> 0 \<or> fbintvl s1 \<le> monotonic w (ticks s1) - start")
      case True
      then show ?thesis using 1(2) unfolding p Returned
        by (auto simp add: Let_def m1 split: if_splits)
    next
      case False
      then have "loop w start (Some (z_unconsumed_tail w (dec_hist (zdec s1))))
                   (s1\<lparr>zdata := PyNone, ticks := Suc (ticks s1)\<rparr>) = Some r"
        using 1(2) p Returned by (simp add: Let_def)
      from 1(1)[OF this] show ?thesis using m1 by simp
    qed
  next
    case (Raised e)
    then show ?thesis using 1(2) unfolding p by (auto simp add: m1)
  qed
qed

lemma mounted_writes:
  "sd_write_bz2 w data session s = Some r \<Longrightarrow> sd_mounted (snd r) = sd_mounted s"
  "sd_write_gz w data session s = Some r \<Longrightarrow> sd_mounted (snd r) = sd_mounted s"
proof -
  obtain o1 s1 where c: "check_expired w session s = (o1, s1)"
    by (cases "check_expired w session s")
  have m1: "sd_mounted s1 = sd_mounted s"
    using mounted_check_expired[of w session s] c by simp
  show "sd_write_bz2 w data session s = Some r \<Longrightarrow> sd_mounted (snd r) = sd_mounted s"
    using c m1
    by (cases o1) (auto simp add: sd_write_bz2_def Let_def dest!: mounted_bz2_loop split: if_splits)
  show "sd_write_gz w data session s = Some r \<Longrightarrow> sd_mounted (snd r) = sd_mounted s"
    using c m1
    by (cases o1) (auto simp add: sd_write_gz_def Let_def dest!: mounted_gz_loop
        split: if_splits zattr.splits)
qed

lemma mounted_sd_mount:
  "sd_mounted s \<Longrightarrow> sd_mounted (snd (sd_mount w part session s))"
proof -
  assume m: "sd_mounted s"
  obtain o1 s1 where c: "check_expired w session s = (o1, s1)"
    by (cases "check_expired w session s")
  have "sd_mounted s1"
    using mounted_check_expired[of w session s] c m by simp
  then show ?thesis using c
    by (cases o1) (simp_all add: sd_mount_def bnd_Returned bnd_Raised)
qed

lemma sd_mount_when_mounted:
  assumes "sd_mounted s" and "check_expired w session s = (Returned (), s1)"
  shows "sd_mount w part session s = (Returned True, s1)" and "trace s1 = trace s"
proof -
  note fr = check_expired_frame[OF assms(2)]
  have "sd_mounted s1" "trace s1 = trace s"
    using assms(1) by (subst fr, simp)+
  then show "sd_mount w part session s = (Returned True, s1)" and "trace s1 = trace s"
    using assms(2) by (simp_all add: sd_mount_def bnd_Returned)
qed

lemma mounted_after:
  assumes "sd_mounted s" and "state_after w c s = Some s'"
  shows "sd_mounted s'"
proof (cases c)
  case (Console x)
  then show ?thesis using assms
    by (cases x)
      (auto simp add: mounted_console mounted_lease console_clear_def console_flush_def
        console_head_def console_lines_def console_print_def console_prompt_def
        console_run_def console_send_def console_tail_def)
next
  case (Target x)
  then show ?thesis using assms
    by (cases x) (auto simp add: mounted_lease mounted_power)
next
  case (Sd x)
  then show ?thesis using assms
    by (cases x)
      (auto simp add: mounted_sd mounted_sd_locked mounted_sd_open mounted_swaps
        mounted_sd_toggle mounted_sd_mount dest: mounted_writes)
next
  case (Usb x)
  then show ?thesis using assms
    by (cases x)
      (auto simp add: mounted_usb mounted_usb_class usb_on_def usb_off_def usb_toggle_def
        usb_on_by_class_def usb_off_by_class_def)
qed

lemma mounted_run:
  "sd_mounted s \<Longrightarrow> run w cs s = Some s' \<Longrightarrow> sd_mounted s'"
proof (induction cs arbitrary: s)
  case Nil
  then show ?case by simp
next
  case (Cons c cs)
  from Cons.prems(2) obtain s1 where a: "state_after w c s = Some s1" and r: "run w cs s1 = Some s'"
    by (auto split: option.splits)
  from Cons.IH[OF mounted_after[OF Cons.prems(1) a] r] show ?case .
qed

end
